theory Spec2Isabelle
  imports Main "HOL-Library.Sublist"
begin

section \<open>JavaScript values used by \<open>pkg/nuclide/hack/lib/hack.js\<close>\<close>

text \<open>
  Strings are lists of code units; the model covers the code units 0 to 255, read as
  the Unicode code points of the same number. Numbers that the module touches are line
  numbers, column numbers and character offsets: they are integers, modelled by
  \<open>int\<close> (JavaScript's doubles are exact on integers of magnitude below \<open>2 ^ 53\<close>).
  A value that may be \<open>null\<close> or \<open>undefined\<close> is an \<open>option\<close>, and a thrown value
  or the reason of a rejected promise is an \<open>error\<close>: a function that may throw, or
  an awaited promise, yields \<open>error + 'a\<close>.
\<close>

datatype error = Error string | TypeError string

text \<open>\<open>ToBoolean\<close> on a value that is a string, \<open>null\<close> or \<open>undefined\<close>.\<close>

definition truthy :: "string option \<Rightarrow> bool" where
  "truthy v = (case v of None \<Rightarrow> False | Some s \<Rightarrow> s \<noteq> [])"

text \<open>\<open>String.prototype.trim\<close>: white space and line terminators go from both ends.\<close>

definition isWhiteSpace :: "char \<Rightarrow> bool" where
  "isWhiteSpace c = (of_char c \<in> {9, 10, 11, 12, 13, 32, 160 :: nat})"

definition trim :: "string \<Rightarrow> string" where
  "trim s = rev (dropWhile isWhiteSpace (rev (dropWhile isWhiteSpace s)))"

text \<open>\<open>String.prototype.toLowerCase\<close> on the code units 0 to 255.\<close>

definition toLowerChar :: "char \<Rightarrow> char" where
  "toLowerChar c =
     (let n = (of_char c :: nat)
      in if (65 \<le> n \<and> n \<le> 90) \<or> (192 \<le> n \<and> n \<le> 222 \<and> n \<noteq> 215)
         then char_of (n + 32) else c)"

definition toLowerCase :: "string \<Rightarrow> string" where
  "toLowerCase s = map toLowerChar s"

text \<open>
  \<open>String.prototype.indexOf\<close> with one argument: the least position at which the
  search string starts, or \<open>-1\<close>.
\<close>

fun indexOf_from :: "int \<Rightarrow> string \<Rightarrow> string \<Rightarrow> int" where
  "indexOf_from k [] t = (if t = [] then k else - 1)"
| "indexOf_from k (c # s) t = (if prefix t (c # s) then k else indexOf_from (k + 1) s t)"

definition indexOf :: "string \<Rightarrow> string \<Rightarrow> int" where
  "indexOf s t = indexOf_from 0 s t"

text \<open>
  \<open>Promise.all\<close> of two promises: it resolves to both values once both have resolved,
  and rejects with the reason of the promise that rejects first. Which of two rejecting
  promises is first is a matter of timing, given by the flag.
\<close>

definition promise_all :: "bool \<Rightarrow> error + 'a \<Rightarrow> error + 'b \<Rightarrow> error + 'a \<times> 'b" where
  "promise_all second_first a b =
     (case a of
        Inr x \<Rightarrow> (case b of Inr y \<Rightarrow> Inr (x, y) | Inl e \<Rightarrow> Inl e)
      | Inl e1 \<Rightarrow> (case b of Inr y \<Rightarrow> Inl e1
                  | Inl e2 \<Rightarrow> Inl (if second_first then e2 else e1)))"

text \<open>
  A call of a function that returns a promise: the call itself throws, or it returns a
  promise, which later rejects (\<open>Inl\<close>) or resolves (\<open>Inr\<close>).
\<close>

datatype 'a invoked = Throws error | Promise "error + 'a"

definition thrown :: "'a invoked \<Rightarrow> error option" where
  "thrown c = (case c of Throws e \<Rightarrow> Some e | Promise p \<Rightarrow> None)"

text \<open>The error with which a call fails: thrown by the call, or the reason of its promise.\<close>

definition failure :: "'a invoked \<Rightarrow> error option" where
  "failure c =
     (case c of
        Throws e \<Rightarrow> Some e
      | Promise p \<Rightarrow> (case p of Inl e \<Rightarrow> Some e | Inr v \<Rightarrow> None))"

section \<open>Data model\<close>

text \<open>
  A \<open>NuclideClient\<close> is an object with an identifier; \<open>client_ref\<close> is the identity of
  the object, so that two clients with one identifier can be told apart.
\<close>

record NuclideClient =
  client_ref :: nat
  getID :: string

text \<open>What \<open>client.exec\<close> resolves to.\<close>

record exec_result =
  stdout :: string
  stderr :: string
  exitCode :: int

text \<open>
  The client a \<open>HackLanguage\<close> is built around: the \<open>NuclideClient\<close> itself or a
  \<open>NullHackClient\<close>.
\<close>

datatype hack_client = RealClient NuclideClient | NullHackClient

text \<open>
  A \<open>HackLanguage\<close> instance. \<open>instance_ref\<close> is the identity of the object that
  \<open>new HackLanguage(hackClient)\<close> allocates.
\<close>

record HackLanguage =
  instance_ref :: nat
  hackClient :: hack_client

text \<open>
  What reading a property of the registry object gives when it gives something: a
  \<open>HackLanguage\<close> stored under that name, or the value that every object inherits
  under that name from \<open>Object.prototype\<close>.
\<close>

datatype registry_value = Session HackLanguage | Inherited string

type_synonym diagnostic = string

record completion =
  matchText :: string

record point =
  row :: int
  column :: int

record range =
  range_start :: point
  range_end :: point

record TextBuffer =
  getUri :: string
  buffer_getText :: string

record TextEditor =
  getBuffer :: TextBuffer
  getPath :: string
  getText :: string
  lastCursorBufferPosition :: point

text \<open>The fields of \<open>url.parse\<close>'s result that the module reads.\<close>

record parsed_url =
  url_path :: string
  protocol :: "string option"
  host :: "string option"

text \<open>What \<open>extractWordAtPosition\<close> returns when it finds a word.\<close>

record match_data =
  word :: string
  match_range :: range

record type_hint =
  hint :: string
  hint_range :: range

text \<open>An element of the list \<open>getDefinition\<close> resolves to (1-based line and column).\<close>

record position =
  pos_path :: string
  pos_line :: int
  pos_column :: int

text \<open>What \<open>findDefinition\<close> resolves to when a definition is found.\<close>

record definition_location =
  def_file :: string
  def_line :: int
  def_column :: int

text \<open>
  Every call that leaves the module, in the order the module makes it. The trace is the
  observable behaviour of the module next to its results and its two maps.
\<close>

datatype event =
    Exec NuclideClient string
  | FindNearestFile NuclideClient string string
  | NewHackLanguage HackLanguage
  | GetDiagnostics HackLanguage string string
  | GetCompletions HackLanguage string string int
  | FormatSource HackLanguage string int int
  | GetType HackLanguage string string string int int
  | GetDefinition HackLanguage string string int int "string option"
  | UpdateFile HackLanguage string string
  | GetServerDiagnostics HackLanguage
  | UpdateDependencies HackLanguage
  | LoggerError string error
  | CommandsDispatch TextEditor string

text \<open>
  The state of the module: the own properties of its two module-level objects, both
  created as \<open>{}\<close> and used as maps from the client identifier, the counter of
  allocated \<open>HackLanguage\<close> objects and the trace.
\<close>

record module_state =
  clientToHackLanguage :: "string \<rightharpoonup> HackLanguage"
  clientToHackLinterCache :: "string \<rightharpoonup> diagnostic list"
  next_instance :: nat
  trace :: "event list"

definition emit :: "event list \<Rightarrow> module_state \<Rightarrow> module_state" where
  "emit evs st = st\<lparr>trace := trace st @ evs\<rparr>"

text \<open>
  The registry is the plain object \<open>{}\<close>, so that \<open>clientToHackLanguage[clientId]\<close>
  finds an own property first and otherwise what \<open>Object.prototype\<close> has under that
  name. These are the names that \<open>Object.prototype\<close> has in the engine that runs the
  module; the value under each is a function or an object, hence truthy, as a
  \<open>HackLanguage\<close> is. So \<open>if (clientToHackLanguage[clientId])\<close> asks whether
  \<open>registry_get\<close> finds something.
\<close>

definition object_prototype_properties :: "string list" where
  "object_prototype_properties =
     [''constructor'', ''toString'', ''toLocaleString'', ''valueOf'', ''hasOwnProperty'',
      ''isPrototypeOf'', ''propertyIsEnumerable'', ''__proto__'', ''__defineGetter__'',
      ''__defineSetter__'', ''__lookupGetter__'', ''__lookupSetter__'']"

definition registry_get :: "module_state \<Rightarrow> string \<Rightarrow> registry_value option" where
  "registry_get st clientId =
     (case clientToHackLanguage st clientId of
        Some hackLanguage \<Rightarrow> Some (Session hackLanguage)
      | None \<Rightarrow>
          if clientId \<in> set object_prototype_properties then Some (Inherited clientId)
          else None)"

text \<open>
  The diagnostics cache is read and written only under the identifier of a buffer for
  which a \<open>HackLanguage\<close> method has answered, that is one that has an own property
  in the registry. In the states that the module reaches from its load no such
  identifier is a name of \<open>Object.prototype\<close> (lemmas
  \<open>own_keys_not_inherited_reached\<close> and \<open>resolved_identifier_not_inherited\<close>), so
  that the cache is looked up among its own properties.
\<close>

definition own_keys_not_inherited :: "module_state \<Rightarrow> bool" where
  "own_keys_not_inherited st =
     (\<forall>k \<in> set object_prototype_properties. clientToHackLanguage st k = None)"

text \<open>
  The collaborators of the module whose code is outside it: \<open>nuclide-client\<close>, Node's
  \<open>url\<close> and \<open>path\<close>, the client's remote calls, the editor's buffer, and the methods
  of \<open>HackLanguage\<close>. Each is a function of its arguments to what the call returns or
  what its promise settles to.
\<close>

record env =
  getClient :: "string \<Rightarrow> NuclideClient"
  url_parse :: "string \<Rightarrow> parsed_url"
  dirname :: "string \<Rightarrow> string"
  exec :: "NuclideClient \<Rightarrow> string \<Rightarrow> exec_result invoked"
  findNearestFile :: "NuclideClient \<Rightarrow> string \<Rightarrow> string \<Rightarrow> string option invoked"
  findNearestFile_rejects_first :: bool
  extractWordAtPosition :: "TextEditor \<Rightarrow> point \<Rightarrow> match_data option"
  lineForRow :: "TextBuffer \<Rightarrow> int \<Rightarrow> string option"
  characterIndexForPosition :: "TextBuffer \<Rightarrow> point \<Rightarrow> int"
  getDiagnostics :: "HackLanguage \<Rightarrow> string \<Rightarrow> string \<Rightarrow> error + diagnostic list"
  getCompletions :: "HackLanguage \<Rightarrow> string \<Rightarrow> string \<Rightarrow> int \<Rightarrow> error + completion list"
  formatSource :: "HackLanguage \<Rightarrow> string \<Rightarrow> int \<Rightarrow> int \<Rightarrow> error + string"
  getType ::
    "HackLanguage \<Rightarrow> string \<Rightarrow> string \<Rightarrow> string \<Rightarrow> int \<Rightarrow> int \<Rightarrow> error + string option"
  getDefinition ::
    "HackLanguage \<Rightarrow> string \<Rightarrow> string \<Rightarrow> int \<Rightarrow> int \<Rightarrow> string option
      \<Rightarrow> error + position list option"
  updateFile :: "HackLanguage \<Rightarrow> string \<Rightarrow> string \<Rightarrow> error + unit"
  getServerDiagnostics :: "HackLanguage \<Rightarrow> error + diagnostic list option"

section \<open>\<open>createHackLanguageIfNotExisting\<close>\<close>

text \<open>
  The function has one \<open>await\<close>, so it runs in two pieces, each without interruption
  (JavaScript runs one piece of code at a time and gives control away at an \<open>await\<close>
  only). \<open>create_begin\<close> is the piece up to the \<open>await\<close>. It returns what the registry
  has under the identifier when it has something. Otherwise it calls \<open>client.exec\<close> and
  then \<open>client.findNearestFile\<close>, the elements of the array literal in their order: a
  call that throws ends the function with that error before the next call is made, and
  when both have returned their promises the function suspends. \<open>exec_thrown\<close> and
  \<open>find_thrown\<close> say whether the two calls throw.
\<close>

datatype begun = Returns registry_value | Fails error | Suspends

definition create_begin ::
  "(string \<Rightarrow> string) \<Rightarrow> error option \<Rightarrow> error option \<Rightarrow> NuclideClient \<Rightarrow> string
    \<Rightarrow> module_state \<Rightarrow> begun \<times> module_state" where
  "create_begin dirname_fn exec_thrown find_thrown client filePath st =
     (let clientId = getID client
      in case registry_get st clientId of
           Some found \<Rightarrow> (Returns found, st)
         | None \<Rightarrow>
             (let st1 = emit [Exec client ''which hh_client''] st
              in case exec_thrown of
                   Some e \<Rightarrow> (Fails e, st1)
                 | None \<Rightarrow>
                     (let st2 = emit [FindNearestFile client ''.hhconfig''
                                        (dirname_fn filePath)] st1
                      in case find_thrown of
                           Some e \<Rightarrow> (Fails e, st2)
                         | None \<Rightarrow> (Suspends, st2))))"

text \<open>
  \<open>create_resume\<close> is the piece after the \<open>await\<close>, run with what \<open>Promise.all\<close> has
  settled to.
\<close>

definition create_resume ::
  "NuclideClient \<Rightarrow> error + exec_result \<times> string option \<Rightarrow> module_state
    \<Rightarrow> (error + registry_value) \<times> module_state" where
  "create_resume client settled st =
     (case settled of
        Inl e \<Rightarrow> (Inl e, st)
      | Inr (res, nearestPath) \<Rightarrow>
          (let clientId = getID client
           in case registry_get st clientId of
                Some found \<Rightarrow> (Inr found, st)
              | None \<Rightarrow>
                  (let hackClient =
                         (if trim (stdout res) \<noteq> [] \<and> truthy nearestPath
                          then RealClient client else NullHackClient);
                       hackLanguage =
                         \<lparr>instance_ref = next_instance st, hackClient = hackClient\<rparr>
                   in (Inr (Session hackLanguage),
                       emit [NewHackLanguage hackLanguage]
                         (st\<lparr>clientToHackLanguage :=
                               (clientToHackLanguage st)(clientId \<mapsto> hackLanguage),
                             next_instance := Suc (next_instance st)\<rparr>)))))"

text \<open>
  What the \<open>Promise.all\<close> of the two probes settles to in the environment \<open>E\<close>, when
  both calls have returned their promises.
\<close>

definition probes :: "env \<Rightarrow> NuclideClient \<Rightarrow> string \<Rightarrow> error + exec_result \<times> string option" where
  "probes E client filePath =
     (case exec E client ''which hh_client'' of
        Throws e \<Rightarrow> Inl e
      | Promise p1 \<Rightarrow>
          (case findNearestFile E client ''.hhconfig'' (dirname E filePath) of
             Throws e \<Rightarrow> Inl e
           | Promise p2 \<Rightarrow> promise_all (findNearestFile_rejects_first E) p1 p2))"

text \<open>One call of the function with nothing else running in between.\<close>

definition createHackLanguageIfNotExisting ::
  "env \<Rightarrow> NuclideClient \<Rightarrow> string \<Rightarrow> module_state
    \<Rightarrow> (error + registry_value) \<times> module_state" where
  "createHackLanguageIfNotExisting E client filePath st =
     (case create_begin (dirname E)
             (thrown (exec E client ''which hh_client''))
             (thrown (findNearestFile E client ''.hhconfig'' (dirname E filePath)))
             client filePath st of
        (Returns found, st1) \<Rightarrow> (Inr found, st1)
      | (Fails e, st1) \<Rightarrow> (Inl e, st1)
      | (Suspends, st1) \<Rightarrow> create_resume client (probes E client filePath) st1)"

section \<open>The helpers of the module\<close>

definition getFilePath :: "string \<Rightarrow> string option \<Rightarrow> string option \<Rightarrow> string" where
  "getFilePath filePath protocol_v host_v =
     (case protocol_v of
        None \<Rightarrow> filePath
      | Some p \<Rightarrow>
          (case host_v of
             None \<Rightarrow> filePath
           | Some h \<Rightarrow> if p = [] \<or> h = [] then filePath else p @ ''//'' @ h @ filePath))"

definition getClientId :: "env \<Rightarrow> TextBuffer \<Rightarrow> string" where
  "getClientId E buffer = (let client = getClient E (getUri buffer) in getID client)"

definition getHackLanguageForBuffer ::
  "env \<Rightarrow> TextBuffer \<Rightarrow> module_state \<Rightarrow> (error + registry_value) \<times> module_state" where
  "getHackLanguageForBuffer E buffer st =
     (let uri = getUri buffer;
          filePath = url_path (url_parse E uri);
          client = getClient E uri
      in createHackLanguageIfNotExisting E client filePath st)"

section \<open>The exported operations\<close>

text \<open>
  Each operation is given as one run from its call to its return, with the answers of
  the collaborators taken from \<open>E\<close>. A rejected \<open>await\<close> outside a \<open>try\<close> ends the
  operation with that error. When \<open>hackLanguage\<close> is a value inherited from
  \<open>Object.prototype\<close>, it has none of the methods of a \<open>HackLanguage\<close>, and the call
  of one throws a \<open>TypeError\<close> before anything is called.
\<close>

definition not_a_function :: "string \<Rightarrow> error" where
  "not_a_function method = TypeError (''hackLanguage.'' @ method @ '' is not a function'')"

definition findDiagnostics ::
  "env \<Rightarrow> TextEditor \<Rightarrow> module_state \<Rightarrow> (error + diagnostic list) \<times> module_state" where
  "findDiagnostics E editor st =
     (let buffer = getBuffer editor
      in case getHackLanguageForBuffer E buffer st of
           (Inl e, st1) \<Rightarrow> (Inl e, st1)
         | (Inr (Inherited name), st1) \<Rightarrow> (Inl (not_a_function ''getDiagnostics''), st1)
         | (Inr (Session hackLanguage), st1) \<Rightarrow>
             (let path = url_path (url_parse E (getPath editor));
                  contents = getText editor;
                  st2 = emit [GetDiagnostics hackLanguage path contents] st1
              in case getDiagnostics E hackLanguage path contents of
                   Inl e \<Rightarrow> (Inl e, st2)
                 | Inr errors \<Rightarrow>
                     (let clientId = getClientId E buffer
                      in case clientToHackLinterCache st2 clientId of
                           Some cached \<Rightarrow> (Inr (errors @ cached), st2)
                         | None \<Rightarrow> (Inr errors, st2))))"

definition fetchCompletionsForEditor ::
  "env \<Rightarrow> TextEditor \<Rightarrow> string \<Rightarrow> module_state \<Rightarrow> (error + completion list) \<times> module_state" where
  "fetchCompletionsForEditor E editor prefix_v st =
     (case getHackLanguageForBuffer E (getBuffer editor) st of
        (Inl e, st1) \<Rightarrow> (Inl e, st1)
      | (Inr (Inherited name), st1) \<Rightarrow> (Inl (not_a_function ''getCompletions''), st1)
      | (Inr (Session hackLanguage), st1) \<Rightarrow>
          (let path = url_path (url_parse E (getPath editor));
               contents = getText editor;
               cursor = lastCursorBufferPosition editor;
               offset = characterIndexForPosition E (getBuffer editor) cursor;
               st2 = emit [GetCompletions hackLanguage path contents offset] st1
           in case getCompletions E hackLanguage path contents offset of
                Inl e \<Rightarrow> (Inl e, st2)
              | Inr completions \<Rightarrow>
                  (let tokenLowerCase = toLowerCase prefix_v
                   in (Inr (filter
                              (\<lambda>completion.
                                 indexOf (toLowerCase (matchText completion)) tokenLowerCase \<ge> 0)
                              completions),
                       st2))))"

definition formatSourceFromEditor ::
  "env \<Rightarrow> TextEditor \<Rightarrow> range \<Rightarrow> module_state \<Rightarrow> (error + string) \<times> module_state" where
  "formatSourceFromEditor E editor range_v st =
     (let buffer = getBuffer editor
      in case getHackLanguageForBuffer E buffer st of
           (Inl e, st1) \<Rightarrow> (Inl e, st1)
         | (Inr (Inherited name), st1) \<Rightarrow> (Inl (not_a_function ''formatSource''), st1)
         | (Inr (Session hackLanguage), st1) \<Rightarrow>
             (let startPosition = characterIndexForPosition E buffer (range_start range_v);
                  endPosition = characterIndexForPosition E buffer (range_end range_v);
                  st2 = emit [FormatSource hackLanguage (buffer_getText buffer)
                                (startPosition + 1) (endPosition + 1)] st1
              in (formatSource E hackLanguage (buffer_getText buffer)
                    (startPosition + 1) (endPosition + 1),
                  st2)))"

definition typeHintFromEditor ::
  "env \<Rightarrow> TextEditor \<Rightarrow> point \<Rightarrow> module_state \<Rightarrow> (error + type_hint option) \<times> module_state" where
  "typeHintFromEditor E editor position_v st =
     (case getHackLanguageForBuffer E (getBuffer editor) st of
        (Inl e, st1) \<Rightarrow> (Inl e, st1)
      | (Inr (Inherited name), st1) \<Rightarrow>
          (case extractWordAtPosition E editor position_v of
             None \<Rightarrow> (Inr None, st1)
           | Some matchData \<Rightarrow> (Inl (not_a_function ''getType''), st1))
      | (Inr (Session hackLanguage), st1) \<Rightarrow>
          (case extractWordAtPosition E editor position_v of
             None \<Rightarrow> (Inr None, st1)
           | Some matchData \<Rightarrow>
               (let path = url_path (url_parse E (getPath editor));
                    contents = getText editor;
                    st2 = emit [GetType hackLanguage path contents (word matchData)
                                  (row position_v + 1) (column position_v + 1)] st1
                in case getType E hackLanguage path contents (word matchData)
                          (row position_v + 1) (column position_v + 1) of
                     Inl e \<Rightarrow> (Inl e, st2)
                   | Inr type_v \<Rightarrow>
                       (case type_v of
                          None \<Rightarrow> (Inr None, st2)
                        | Some t \<Rightarrow>
                            if t = [] then (Inr None, st2)
                            else (Inr (Some \<lparr>hint = t, hint_range = match_range matchData\<rparr>),
                                  st2)))))"

definition findDefinition ::
  "env \<Rightarrow> TextEditor \<Rightarrow> int \<Rightarrow> int \<Rightarrow> module_state
    \<Rightarrow> (error + definition_location option) \<times> module_state" where
  "findDefinition E editor line_v column_v st =
     (case getHackLanguageForBuffer E (getBuffer editor) st of
        (Inl e, st1) \<Rightarrow> (Inl e, st1)
      | (Inr (Inherited name), st1) \<Rightarrow> (Inl (not_a_function ''getDefinition''), st1)
      | (Inr (Session hackLanguage), st1) \<Rightarrow>
          (let parsed = url_parse E (getPath editor);
               path = url_path parsed;
               contents = getText editor;
               buffer = getBuffer editor;
               lineText = lineForRow E buffer line_v;
               st2 = emit [GetDefinition hackLanguage path contents
                             (line_v + 1) (column_v + 1) lineText] st1
           in case getDefinition E hackLanguage path contents
                     (line_v + 1) (column_v + 1) lineText of
                Inl e \<Rightarrow> (Inl e, st2)
              | Inr result \<Rightarrow>
                  (case result of
                     None \<Rightarrow> (Inr None, st2)
                   | Some locations \<Rightarrow>
                       if length locations = 0 then (Inr None, st2)
                       else
                         (let pos = locations ! 0
                          in (Inr (Some
                                \<lparr>def_file =
                                   getFilePath (pos_path pos) (protocol parsed) (host parsed),
                                 def_line = pos_line pos - 1,
                                 def_column = pos_column pos - 1\<rparr>),
                              st2)))))"

text \<open>
  In \<open>onDidSave\<close> the call of \<open>getServerDiagnostics\<close> stands in a \<open>try\<close>: a rejection
  is logged and \<open>diagnostics\<close> stays \<open>undefined\<close>. The promise that
  \<open>updateDependencies\<close> returns is not awaited, so that what it settles to has no part
  in the run.
\<close>

definition onDidSave ::
  "env \<Rightarrow> TextEditor \<Rightarrow> module_state \<Rightarrow> (error + unit) \<times> module_state" where
  "onDidSave E editor st =
     (let path = url_path (url_parse E (getPath editor));
          contents = getText editor;
          buffer = getBuffer editor
      in case getHackLanguageForBuffer E buffer st of
           (Inl e, st1) \<Rightarrow> (Inl e, st1)
         | (Inr (Inherited name), st1) \<Rightarrow> (Inl (not_a_function ''updateFile''), st1)
         | (Inr (Session hackLanguage), st1) \<Rightarrow>
             (let st2 = emit [UpdateFile hackLanguage path contents] st1
              in case updateFile E hackLanguage path contents of
                   Inl e \<Rightarrow> (Inl e, st2)
                 | Inr _ \<Rightarrow>
                     (let st3 = emit [GetServerDiagnostics hackLanguage] st2;
                          (diagnostics, st4) =
                            (case getServerDiagnostics E hackLanguage of
                               Inl err \<Rightarrow>
                                 (None,
                                  emit [LoggerError ''Hack: getServerDiagnostics failed'' err] st3)
                             | Inr d \<Rightarrow> (d, st3));
                          st5 =
                            (case diagnostics of
                               None \<Rightarrow> st4
                             | Some ds \<Rightarrow>
                                 emit [CommandsDispatch editor ''linter:lint'']
                                   (st4\<lparr>clientToHackLinterCache :=
                                          (clientToHackLinterCache st4)
                                            (getClientId E buffer \<mapsto> ds)\<rparr>))
                      in (Inr (), emit [UpdateDependencies hackLanguage] st5))))"

section \<open>Calls that overlap\<close>

text \<open>
  Several calls of \<open>createHackLanguageIfNotExisting\<close> can be under way at once: each
  has been called, is suspended at its \<open>await\<close>, or has returned. A schedule picks, step
  by step, the call that runs its next piece, and says how the probes of that call
  answer: a call that begins may find that \<open>exec\<close> or \<open>findNearestFile\<close> throws, and a
  call that resumes is given what its \<open>Promise.all\<close> has settled to. So a call may meet
  any answer of its probes at any moment. A step whose answer does not fit the piece that
  is next (a thrown call for a suspended call) leaves everything as it is.
\<close>

datatype phase = Called | Suspended | Returned "error + registry_value"

record invocation =
  inv_client :: NuclideClient
  inv_filePath :: string
  inv_phase :: phase

datatype answer =
    ExecThrows error
  | FindNearestFileThrows error
  | Settled "error + exec_result \<times> string option"

type_synonym system = "module_state \<times> invocation list"

definition begin_call ::
  "(string \<Rightarrow> string) \<Rightarrow> answer \<Rightarrow> NuclideClient \<Rightarrow> string \<Rightarrow> module_state
    \<Rightarrow> begun \<times> module_state" where
  "begin_call dirname_fn a client filePath st =
     (case a of
        ExecThrows e \<Rightarrow> create_begin dirname_fn (Some e) None client filePath st
      | FindNearestFileThrows e \<Rightarrow> create_begin dirname_fn None (Some e) client filePath st
      | Settled p \<Rightarrow> create_begin dirname_fn None None client filePath st)"

definition sched_step :: "(string \<Rightarrow> string) \<Rightarrow> nat \<times> answer \<Rightarrow> system \<Rightarrow> system" where
  "sched_step dirname_fn item sys =
     (case item of (i, a) \<Rightarrow>
      case sys of (st, invs) \<Rightarrow>
        if i < length invs then
          (let c = invs ! i
           in case inv_phase c of
                Called \<Rightarrow>
                  (case begin_call dirname_fn a (inv_client c) (inv_filePath c) st of
                     (Returns found, st1) \<Rightarrow>
                       (st1, invs[i := c\<lparr>inv_phase := Returned (Inr found)\<rparr>])
                   | (Fails e, st1) \<Rightarrow> (st1, invs[i := c\<lparr>inv_phase := Returned (Inl e)\<rparr>])
                   | (Suspends, st1) \<Rightarrow> (st1, invs[i := c\<lparr>inv_phase := Suspended\<rparr>]))
              | Suspended \<Rightarrow>
                  (case a of
                     Settled settled \<Rightarrow>
                       (case create_resume (inv_client c) settled st of
                          (r, st1) \<Rightarrow> (st1, invs[i := c\<lparr>inv_phase := Returned r\<rparr>]))
                   | ExecThrows e \<Rightarrow> (st, invs)
                   | FindNearestFileThrows e \<Rightarrow> (st, invs))
              | Returned r \<Rightarrow> (st, invs))
        else (st, invs))"

fun run_schedule :: "(string \<Rightarrow> string) \<Rightarrow> (nat \<times> answer) list \<Rightarrow> system \<Rightarrow> system" where
  "run_schedule dirname_fn [] sys = sys"
| "run_schedule dirname_fn (item # items) sys =
     run_schedule dirname_fn items (sched_step dirname_fn item sys)"

text \<open>The instances that a stretch of the trace shows being constructed.\<close>

fun constructed :: "event list \<Rightarrow> HackLanguage list" where
  "constructed [] = []"
| "constructed (NewHackLanguage hackLanguage # evs) = hackLanguage # constructed evs"
| "constructed (_ # evs) = constructed evs"

text \<open>Sequences of calls of the exported operations, one after the other.\<close>

datatype request =
    FindDiagnostics TextEditor
  | FetchCompletionsForEditor TextEditor string
  | FormatSourceFromEditor TextEditor range
  | TypeHintFromEditor TextEditor point
  | FindDefinition TextEditor int int
  | OnDidSave TextEditor

fun perform :: "env \<Rightarrow> request \<Rightarrow> module_state \<Rightarrow> module_state" where
  "perform E (FindDiagnostics editor) st = snd (findDiagnostics E editor st)"
| "perform E (FetchCompletionsForEditor editor prefix_v) st =
     snd (fetchCompletionsForEditor E editor prefix_v st)"
| "perform E (FormatSourceFromEditor editor range_v) st =
     snd (formatSourceFromEditor E editor range_v st)"
| "perform E (TypeHintFromEditor editor position_v) st =
     snd (typeHintFromEditor E editor position_v st)"
| "perform E (FindDefinition editor line_v column_v) st =
     snd (findDefinition E editor line_v column_v st)"
| "perform E (OnDidSave editor) st = snd (onDidSave E editor st)"

fun perform_all :: "(env \<times> request) list \<Rightarrow> module_state \<Rightarrow> module_state" where
  "perform_all [] st = st"
| "perform_all ((E, r) # rs) st = perform_all rs (perform E r st)"

text \<open>The state of the module when it has been loaded: both maps are \<open>{}\<close>.\<close>

definition initial_state :: module_state where
  "initial_state =
     \<lparr>clientToHackLanguage = Map.empty, clientToHackLinterCache = Map.empty,
      next_instance = 0, trace = []\<rparr>"

section \<open>An invariant of overlapping calls\<close>

text \<open>
  \<open>overlap_inv st0 (st, invs)\<close> relates the state \<open>st0\<close> in which the calls \<open>invs\<close>
  were made to a later state \<open>st\<close>: a call that has returned a value has returned
  what the registry has under its client identifier; an entry of \<open>st0\<close> is still
  there; only the identifiers of the calls have changed entries; and the instances
  constructed since \<open>st0\<close>, in the order of the trace, are the entries of the
  identifiers that have got an entry since \<open>st0\<close>, one for each.
\<close>

definition overlap_inv :: "module_state \<Rightarrow> system \<Rightarrow> bool" where
  "overlap_inv st0 sys =
     (case sys of (st, invs) \<Rightarrow>
        (\<forall>c\<in>set invs. \<forall>v. inv_phase c = Returned (Inr v) \<longrightarrow>
            registry_get st (getID (inv_client c)) = Some v) \<and>
        (\<forall>k hl. clientToHackLanguage st0 k = Some hl \<longrightarrow>
            clientToHackLanguage st k = Some hl) \<and>
        (\<forall>k. k \<notin> set (map (\<lambda>c. getID (inv_client c)) invs) \<longrightarrow>
            clientToHackLanguage st k = clientToHackLanguage st0 k) \<and>
        (\<exists>evs ks. trace st = trace st0 @ evs \<and> distinct ks \<and>
           set ks = {k. clientToHackLanguage st0 k = None \<and> clientToHackLanguage st k \<noteq> None} \<and>
           map (clientToHackLanguage st) ks = map Some (constructed evs)))"

section \<open>Concrete inputs\<close>

definition demo_client :: NuclideClient where
  "demo_client = \<lparr>client_ref = 1, getID = ''local''\<rparr>"

definition demo_client2 :: NuclideClient where
  "demo_client2 = \<lparr>client_ref = 2, getID = ''local''\<rparr>"

definition demo_found :: answer where
  "demo_found =
     Settled (Inr (\<lparr>stdout = ''/usr/bin/hh_client'' @ [CHR 0x0A], stderr = [],
                     exitCode = 0\<rparr>,
                   Some ''/www''))"

definition demo_missing :: answer where
  "demo_missing = Settled (Inr (\<lparr>stdout = [], stderr = [], exitCode = 1\<rparr>, None))"

definition demo_invocations :: "invocation list" where
  "demo_invocations =
     [\<lparr>inv_client = demo_client, inv_filePath = ''/www/a.php'', inv_phase = Called\<rparr>,
      \<lparr>inv_client = demo_client2, inv_filePath = ''/www/b.php'', inv_phase = Called\<rparr>]"

definition demo_schedule :: "(nat \<times> answer) list" where
  "demo_schedule = [(0, demo_missing), (1, demo_missing), (1, demo_found), (0, demo_missing)]"

definition demo_session :: HackLanguage where
  "demo_session = \<lparr>instance_ref = 0, hackClient = RealClient demo_client2\<rparr>"

definition demo_buffer :: TextBuffer where
  "demo_buffer = \<lparr>getUri = ''/www/a.php'', buffer_getText = ''<?hh''\<rparr>"

definition demo_editor :: TextEditor where
  "demo_editor =
     \<lparr>getBuffer = demo_buffer, getPath = ''/www/a.php'', getText = ''<?hh'',
      lastCursorBufferPosition = \<lparr>row = 0, column = 4\<rparr>\<rparr>"

definition demo_position :: position where
  "demo_position = \<lparr>pos_path = ''/www/lib.php'', pos_line = 10, pos_column = 5\<rparr>"

definition demo_env :: env where
  "demo_env =
     \<lparr>getClient = (\<lambda>uri. demo_client),
      url_parse = (\<lambda>s. \<lparr>url_path = s, protocol = None, host = None\<rparr>),
      dirname = (\<lambda>p. ''/www''),
      exec = (\<lambda>c cmd. Promise (Inr \<lparr>stdout = ''/usr/bin/hh_client'' @ [CHR 0x0A],
                                       stderr = [], exitCode = 0\<rparr>)),
      findNearestFile = (\<lambda>c n d. Promise (Inr (Some ''/www''))),
      findNearestFile_rejects_first = False,
      extractWordAtPosition = (\<lambda>ed p. None),
      lineForRow = (\<lambda>b r. Some ''<?hh''),
      characterIndexForPosition = (\<lambda>b p. column p),
      getDiagnostics = (\<lambda>h p c. Inr [''a'', ''b'']),
      getCompletions =
        (\<lambda>h p c off. Inr [\<lparr>matchText = ''FooBar''\<rparr>, \<lparr>matchText = ''baz''\<rparr>,
                           \<lparr>matchText = ''$foo''\<rparr>]),
      formatSource = (\<lambda>h c s e. Inr c),
      getType = (\<lambda>h p c w l col. Inr None),
      getDefinition = (\<lambda>h p c l col t. Inr (Some [demo_position])),
      updateFile = (\<lambda>h p c. Inr ()),
      getServerDiagnostics = (\<lambda>h. Inl (Error ''timeout''))\<rparr>"

definition demo_env_no_exec :: env where
  "demo_env_no_exec = demo_env\<lparr>exec := (\<lambda>c cmd. Promise (Inl (Error ''ENOENT'')))\<rparr>"

definition demo_env_exec_throws :: env where
  "demo_env_exec_throws = demo_env\<lparr>exec := (\<lambda>c cmd. Throws (Error ''EPIPE''))\<rparr>"

text \<open>Clients whose identifier is the name of a property of \<open>Object.prototype\<close>.\<close>

definition constructor_client :: NuclideClient where
  "constructor_client = \<lparr>client_ref = 3, getID = ''constructor''\<rparr>"

definition constructor_client2 :: NuclideClient where
  "constructor_client2 = \<lparr>client_ref = 4, getID = ''constructor''\<rparr>"

definition constructor_invocations :: "invocation list" where
  "constructor_invocations =
     [\<lparr>inv_client = constructor_client, inv_filePath = ''/www/a.php'', inv_phase = Called\<rparr>,
      \<lparr>inv_client = constructor_client2, inv_filePath = ''/www/b.php'',
       inv_phase = Called\<rparr>]"

definition demo_state :: module_state where
  "demo_state =
     \<lparr>clientToHackLanguage = Map.empty, clientToHackLinterCache = [''local'' \<mapsto> [''c'']],
      next_instance = 0, trace = []\<rparr>"

definition demo_real :: HackLanguage where
  "demo_real = \<lparr>instance_ref = 0, hackClient = RealClient demo_client\<rparr>"

definition demo_state_resolved :: module_state where
  "demo_state_resolved =
     \<lparr>clientToHackLanguage = [''local'' \<mapsto> demo_real],
      clientToHackLinterCache = [''local'' \<mapsto> [''c'']],
      next_instance = 1,
      trace = [Exec demo_client ''which hh_client'',
               FindNearestFile demo_client ''.hhconfig'' ''/www'',
               NewHackLanguage demo_real]\<rparr>"

section \<open>Facts about the pieces of \<open>createHackLanguageIfNotExisting\<close>\<close>

lemmas demo_defs = initial_state_def demo_client_def demo_client2_def demo_found_def
  demo_missing_def demo_invocations_def demo_schedule_def demo_session_def
  constructor_client_def constructor_client2_def constructor_invocations_def

lemmas step_defs = sched_step_def begin_call_def create_begin_def create_resume_def
  registry_get_def object_prototype_properties_def emit_def Let_def
  trim_def isWhiteSpace_def truthy_def

lemma constructed_append: "constructed (xs @ ys) = constructed xs @ constructed ys"
  by (induction xs rule: constructed.induct) auto

lemma registry_get_own:
  "clientToHackLanguage st k = Some hl \<Longrightarrow> registry_get st k = Some (Session hl)"
  by (simp add: registry_get_def)

lemma registry_get_Session:
  "registry_get st k = Some (Session hl) \<Longrightarrow> clientToHackLanguage st k = Some hl"
  by (auto simp: registry_get_def split: option.splits if_splits)

lemma registry_get_None:
  "registry_get st k = None \<Longrightarrow>
   clientToHackLanguage st k = None \<and> k \<notin> set object_prototype_properties"
  by (auto simp: registry_get_def split: option.splits if_splits)

lemma registry_get_cong:
  "clientToHackLanguage st1 = clientToHackLanguage st \<Longrightarrow> registry_get st1 = registry_get st"
  by (auto simp: registry_get_def fun_eq_iff)

lemma registry_get_other:
  "clientToHackLanguage st1 = (clientToHackLanguage st)(k0 \<mapsto> hl) \<Longrightarrow> k \<noteq> k0 \<Longrightarrow>
   registry_get st1 k = registry_get st k"
  by (simp add: registry_get_def)

lemma create_begin_facts:
  assumes "create_begin d x y c fp st = (b, st1)"
  shows "clientToHackLanguage st1 = clientToHackLanguage st \<and>
         clientToHackLinterCache st1 = clientToHackLinterCache st \<and>
         next_instance st1 = next_instance st \<and>
         (\<exists>evs. trace st1 = trace st @ evs \<and> constructed evs = []) \<and>
         (\<forall>v. b = Returns v \<longrightarrow> registry_get st (getID c) = Some v)"
proof (cases "registry_get st (getID c)")
  case (Some v)
  with assms have "b = Returns v" and "st1 = st"
    by (auto simp: create_begin_def)
  with Some show ?thesis by simp
next
  case None
  with assms show ?thesis
    by (cases x; cases y) (auto simp: create_begin_def emit_def Let_def)
qed

lemma begin_call_facts:
  assumes "begin_call d a c fp st = (b, st1)"
  shows "clientToHackLanguage st1 = clientToHackLanguage st \<and>
         clientToHackLinterCache st1 = clientToHackLinterCache st \<and>
         next_instance st1 = next_instance st \<and>
         (\<exists>evs. trace st1 = trace st @ evs \<and> constructed evs = []) \<and>
         (\<forall>v. b = Returns v \<longrightarrow> registry_get st (getID c) = Some v)"
  using assms by (cases a) (auto simp: begin_call_def dest!: create_begin_facts)

lemma map_update_phase:
  "i < length invs \<Longrightarrow>
   map (\<lambda>c. f (inv_client c)) (invs[i := (invs ! i)\<lparr>inv_phase := p\<rparr>]) =
   map (\<lambda>c. f (inv_client c)) invs"
  by (rule nth_equalityI) (auto simp: nth_list_update)


lemma overlap_inv_phase:
  assumes inv: "overlap_inv st0 (st, invs)"
    and i: "i < length invs"
    and ok: "\<forall>v. p = Returned (Inr v) \<longrightarrow>
               registry_get st (getID (inv_client (invs ! i))) = Some v"
    and reg: "clientToHackLanguage st1 = clientToHackLanguage st"
    and tr: "trace st1 = trace st @ evs1"
    and quiet: "constructed evs1 = []"
  shows "overlap_inv st0 (st1, invs[i := (invs ! i)\<lparr>inv_phase := p\<rparr>])"
proof -
  let ?invs = "invs[i := (invs ! i)\<lparr>inv_phase := p\<rparr>]"
  from inv have ret: "\<forall>c\<in>set invs. \<forall>v. inv_phase c = Returned (Inr v) \<longrightarrow>
            registry_get st (getID (inv_client c)) = Some v"
    and keep: "\<forall>k hl. clientToHackLanguage st0 k = Some hl \<longrightarrow>
            clientToHackLanguage st k = Some hl"
    and only: "\<forall>k. k \<notin> set (map (\<lambda>c. getID (inv_client c)) invs) \<longrightarrow>
            clientToHackLanguage st k = clientToHackLanguage st0 k"
    by (simp_all add: overlap_inv_def)
  from inv obtain evs ks where evs: "trace st = trace st0 @ evs" and dist: "distinct ks"
    and ks: "set ks = {k. clientToHackLanguage st0 k = None \<and> clientToHackLanguage st k \<noteq> None}"
    and con: "map (clientToHackLanguage st) ks = map Some (constructed evs)"
    by (auto simp: overlap_inv_def)
  have get: "registry_get st1 = registry_get st"
    using reg by (rule registry_get_cong)
  have ret1: "\<forall>c\<in>set ?invs. \<forall>v. inv_phase c = Returned (Inr v) \<longrightarrow>
            registry_get st1 (getID (inv_client c)) = Some v"
  proof (intro ballI allI impI)
    fix c v assume c: "c \<in> set ?invs" and ph: "inv_phase c = Returned (Inr v)"
    from c have "c = (invs ! i)\<lparr>inv_phase := p\<rparr> \<or> c \<in> set invs"
      using set_update_subset_insert [of invs i] by auto
    then show "registry_get st1 (getID (inv_client c)) = Some v"
    proof
      assume "c = (invs ! i)\<lparr>inv_phase := p\<rparr>"
      with ph ok get show ?thesis by simp
    next
      assume "c \<in> set invs"
      with ph ret get show ?thesis by simp
    qed
  qed
  have only1: "\<forall>k. k \<notin> set (map (\<lambda>c. getID (inv_client c)) ?invs) \<longrightarrow>
            clientToHackLanguage st1 k = clientToHackLanguage st0 k"
    using only reg map_update_phase [OF i, of getID p] by simp
  have tr1: "trace st1 = trace st0 @ (evs @ evs1)"
    using evs tr by simp
  have con1: "map (clientToHackLanguage st1) ks = map Some (constructed (evs @ evs1))"
    using con reg quiet by (simp add: constructed_append)
  have ks1: "set ks = {k. clientToHackLanguage st0 k = None \<and> clientToHackLanguage st1 k \<noteq> None}"
    using ks reg by simp
  show ?thesis
    unfolding overlap_inv_def
    using ret1 keep reg only1 tr1 dist ks1 con1 by auto
qed

lemma overlap_inv_install:
  assumes inv: "overlap_inv st0 (st, invs)"
    and i: "i < length invs"
    and none: "registry_get st (getID (inv_client (invs ! i))) = None"
    and reg: "clientToHackLanguage st1 =
                (clientToHackLanguage st)(getID (inv_client (invs ! i)) \<mapsto> hl)"
    and tr: "trace st1 = trace st @ [NewHackLanguage hl]"
  shows "overlap_inv st0 (st1, invs[i := (invs ! i)\<lparr>inv_phase := Returned (Inr (Session hl))\<rparr>])"
proof -
  let ?k = "getID (inv_client (invs ! i))"
  let ?invs = "invs[i := (invs ! i)\<lparr>inv_phase := Returned (Inr (Session hl))\<rparr>]"
  from inv have ret: "\<forall>c\<in>set invs. \<forall>v. inv_phase c = Returned (Inr v) \<longrightarrow>
            registry_get st (getID (inv_client c)) = Some v"
    and keep: "\<forall>k hl. clientToHackLanguage st0 k = Some hl \<longrightarrow>
            clientToHackLanguage st k = Some hl"
    and only: "\<forall>k. k \<notin> set (map (\<lambda>c. getID (inv_client c)) invs) \<longrightarrow>
            clientToHackLanguage st k = clientToHackLanguage st0 k"
    by (simp_all add: overlap_inv_def)
  from inv obtain evs ks where evs: "trace st = trace st0 @ evs" and dist: "distinct ks"
    and ks: "set ks = {k. clientToHackLanguage st0 k = None \<and> clientToHackLanguage st k \<noteq> None}"
    and con: "map (clientToHackLanguage st) ks = map Some (constructed evs)"
    by (auto simp: overlap_inv_def)
  from none have own: "clientToHackLanguage st ?k = None"
    by (simp add: registry_get_None)
  have none0: "clientToHackLanguage st0 ?k = None"
    using keep own by (cases "clientToHackLanguage st0 ?k") auto
  have fresh: "?k \<notin> set ks"
    using ks own by auto
  have ret1: "\<forall>c\<in>set ?invs. \<forall>v. inv_phase c = Returned (Inr v) \<longrightarrow>
            registry_get st1 (getID (inv_client c)) = Some v"
  proof (intro ballI allI impI)
    fix c v assume c: "c \<in> set ?invs" and ph: "inv_phase c = Returned (Inr v)"
    from c have "c = (invs ! i)\<lparr>inv_phase := Returned (Inr (Session hl))\<rparr> \<or> c \<in> set invs"
      using set_update_subset_insert [of invs i] by auto
    then show "registry_get st1 (getID (inv_client c)) = Some v"
    proof
      assume "c = (invs ! i)\<lparr>inv_phase := Returned (Inr (Session hl))\<rparr>"
      with ph reg show ?thesis by (simp add: registry_get_def)
    next
      assume cin: "c \<in> set invs"
      with ph ret have old: "registry_get st (getID (inv_client c)) = Some v" by blast
      with none have "getID (inv_client c) \<noteq> ?k" by auto
      with old registry_get_other [OF reg] show ?thesis by simp
    qed
  qed
  have keep1: "\<forall>k h. clientToHackLanguage st0 k = Some h \<longrightarrow>
            clientToHackLanguage st1 k = Some h"
    using keep reg none0 by auto
  have kin: "?k \<in> set (map (\<lambda>c. getID (inv_client c)) invs)"
    using nth_mem [OF i] by (simp add: image_iff) blast
  have only1: "\<forall>k. k \<notin> set (map (\<lambda>c. getID (inv_client c)) ?invs) \<longrightarrow>
            clientToHackLanguage st1 k = clientToHackLanguage st0 k"
    using only reg kin map_update_phase [OF i, of getID "Returned (Inr (Session hl))"] by auto
  have tr1: "trace st1 = trace st0 @ (evs @ [NewHackLanguage hl])"
    using evs tr by simp
  have dist1: "distinct (ks @ [?k])"
    using dist fresh by simp
  have ks1: "set (ks @ [?k]) =
      {k. clientToHackLanguage st0 k = None \<and> clientToHackLanguage st1 k \<noteq> None}"
    using ks reg none0 by auto
  have same: "map (clientToHackLanguage st1) ks = map (clientToHackLanguage st) ks"
    using fresh reg by (intro map_cong) auto
  have con1: "map (clientToHackLanguage st1) (ks @ [?k]) =
      map Some (constructed (evs @ [NewHackLanguage hl]))"
    using con same reg by (simp add: constructed_append)
  show ?thesis
    unfolding overlap_inv_def
    using ret1 keep1 only1 tr1 dist1 ks1 con1 by blast
qed

lemma overlap_inv_step:
  assumes inv: "overlap_inv st0 sys"
  shows "overlap_inv st0 (sched_step d item sys)"
proof -
  obtain st invs where sys: "sys = (st, invs)" by (cases sys)
  obtain i a where item: "item = (i, a)" by (cases item)
  note inv' = inv [unfolded sys]
  show ?thesis
  proof (cases "i < length invs")
    case False
    then show ?thesis using inv sys item by (simp add: sched_step_def)
  next
    case True
    let ?c = "invs ! i"
    let ?k = "getID (inv_client ?c)"
    show ?thesis
    proof (cases "inv_phase ?c")
      case (Returned r)
      then show ?thesis using inv sys item True by (simp add: sched_step_def Let_def)
    next
      case Called
      obtain b st1 where b: "begin_call d a (inv_client ?c) (inv_filePath ?c) st = (b, st1)"
        by (cases "begin_call d a (inv_client ?c) (inv_filePath ?c) st")
      define p where "p = (case b of Returns found \<Rightarrow> Returned (Inr found)
                            | Fails e \<Rightarrow> Returned (Inl e) | Suspends \<Rightarrow> Suspended)"
      have step: "sched_step d item sys = (st1, invs[i := ?c\<lparr>inv_phase := p\<rparr>])"
        using sys item True Called b
        by (cases b) (simp_all add: sched_step_def Let_def p_def)
      from begin_call_facts [OF b] obtain evs1 where
        reg: "clientToHackLanguage st1 = clientToHackLanguage st"
        and tr: "trace st1 = trace st @ evs1" and quiet: "constructed evs1 = []"
        and found: "\<forall>v. b = Returns v \<longrightarrow> registry_get st ?k = Some v"
        by blast
      have ok: "\<forall>v. p = Returned (Inr v) \<longrightarrow> registry_get st ?k = Some v"
        using found by (cases b) (simp_all add: p_def)
      show ?thesis
        unfolding step by (rule overlap_inv_phase [OF inv' True ok reg tr quiet])
    next
      case Suspended
      show ?thesis
      proof (cases a)
        case (ExecThrows e)
        then show ?thesis using inv sys item True Suspended by (simp add: sched_step_def Let_def)
      next
        case (FindNearestFileThrows e)
        then show ?thesis using inv sys item True Suspended by (simp add: sched_step_def Let_def)
      next
        case (Settled settled)
        show ?thesis
        proof (cases settled)
          case (Inl e)
          have step: "sched_step d item sys =
              (st, invs[i := ?c\<lparr>inv_phase := Returned (Inl e)\<rparr>])"
            using sys item True Suspended Settled Inl
            by (simp add: sched_step_def create_resume_def Let_def)
          show ?thesis
            unfolding step
            by (rule overlap_inv_phase [OF inv' True, where ?evs1.0 = "[]"]) simp_all
        next
          case (Inr found)
          obtain res np where found: "found = (res, np)" by (cases found)
          show ?thesis
          proof (cases "registry_get st ?k")
            case (Some v)
            have step: "sched_step d item sys =
                (st, invs[i := ?c\<lparr>inv_phase := Returned (Inr v)\<rparr>])"
              using sys item True Suspended Settled Inr found Some
              by (simp add: sched_step_def create_resume_def Let_def)
            show ?thesis
              unfolding step
              by (rule overlap_inv_phase [OF inv' True, where ?evs1.0 = "[]"])
                 (simp_all add: Some)
          next
            case None
            define hl where "hl = \<lparr>instance_ref = next_instance st,
               hackClient = (if trim (stdout res) \<noteq> [] \<and> truthy np
                            then RealClient (inv_client ?c) else NullHackClient)\<rparr>"
            let ?st1 = "emit [NewHackLanguage hl]
                  (st\<lparr>clientToHackLanguage := (clientToHackLanguage st)(?k \<mapsto> hl),
                      next_instance := Suc (next_instance st)\<rparr>)"
            have step: "sched_step d item sys =
               (?st1, invs[i := ?c\<lparr>inv_phase := Returned (Inr (Session hl))\<rparr>])"
              using sys item True Suspended Settled Inr found None
              by (simp add: sched_step_def create_resume_def Let_def hl_def)
            show ?thesis
              unfolding step
              by (rule overlap_inv_install [OF inv' True None]) (simp_all add: emit_def)
          qed
        qed
      qed
    qed
  qed
qed

lemma overlap_inv_run:
  "overlap_inv st0 sys \<Longrightarrow> overlap_inv st0 (run_schedule d sched sys)"
proof (induction sched arbitrary: sys)
  case Nil
  then show ?case by simp
next
  case (Cons item items)
  from Cons.IH [OF overlap_inv_step [OF Cons.prems]] show ?case by simp
qed

lemma overlap_inv_initial:
  assumes "\<forall>c\<in>set invs0. inv_phase c = Called"
  shows "overlap_inv st0 (st0, invs0)"
proof -
  have "\<exists>evs ks. trace st0 = trace st0 @ evs \<and> distinct ks \<and>
           set ks = {k. clientToHackLanguage st0 k = None \<and> clientToHackLanguage st0 k \<noteq> None} \<and>
           map (clientToHackLanguage st0) ks = map Some (constructed evs)"
    by (rule exI [of _ "[]"], rule exI [of _ "[]"]) auto
  with assms show ?thesis by (simp add: overlap_inv_def)
qed

lemma clients_sched_step:
  "map inv_client (snd (sched_step d item sys)) = map inv_client (snd sys)"
proof -
  obtain st invs where sys: "sys = (st, invs)" by (cases sys)
  obtain i a where item: "item = (i, a)" by (cases item)
  show ?thesis
  proof (cases "i < length invs")
    case False
    then show ?thesis using sys item by (simp add: sched_step_def)
  next
    case True
    have upd: "\<And>p. map inv_client (invs[i := (invs ! i)\<lparr>inv_phase := p\<rparr>]) = map inv_client invs"
      using map_update_phase [OF True, of "\<lambda>c. c"] by simp
    show ?thesis
      using sys item True upd
      by (simp add: sched_step_def Let_def
            split: phase.split prod.split begun.split answer.split)
  qed
qed

lemma clients_run_schedule:
  "map inv_client (snd (run_schedule d sched sys)) = map inv_client (snd sys)"
  by (induction sched arbitrary: sys) (simp_all add: clients_sched_step)

lemma subset_singleton_Nil: "set xs \<subseteq> {a} \<Longrightarrow> a \<notin> set xs \<Longrightarrow> xs = []"
  by (cases xs) auto

lemma distinct_singleton:
  assumes "distinct ks" and "set ks = {a}"
  shows "ks = [a]"
proof (cases ks)
  case Nil
  with assms show ?thesis by simp
next
  case (Cons x xs)
  with assms have x: "x = a" and sub: "set xs \<subseteq> {a}" and notin: "x \<notin> set xs"
    by auto
  from sub notin x have "xs = []" by (auto intro: subset_singleton_Nil)
  with Cons x show ?thesis by simp
qed

lemma create_resume_existing:
  "clientToHackLanguage st1 (getID c) = Some hl \<Longrightarrow>
   create_resume c (Inr (res, np)) st1 = (Inr (Session hl), st1)"
  by (simp add: create_resume_def registry_get_def)


lemma demo_run:
  "run_schedule (\<lambda>p. ''/www'') demo_schedule (initial_state, demo_invocations) =
   (\<lparr>clientToHackLanguage = [''local'' \<mapsto> demo_session],
     clientToHackLinterCache = Map.empty,
     next_instance = 1,
     trace = [Exec demo_client ''which hh_client'',
              FindNearestFile demo_client ''.hhconfig'' ''/www'',
              Exec demo_client2 ''which hh_client'',
              FindNearestFile demo_client2 ''.hhconfig'' ''/www'',
              NewHackLanguage demo_session]\<rparr>,
    [\<lparr>inv_client = demo_client, inv_filePath = ''/www/a.php'',
      inv_phase = Returned (Inr (Session demo_session))\<rparr>,
     \<lparr>inv_client = demo_client2, inv_filePath = ''/www/b.php'',
      inv_phase = Returned (Inr (Session demo_session))\<rparr>])"
  by (simp add: demo_defs step_defs)

section \<open>One session for each client identifier\<close>

text \<open>
  Take any calls of \<open>createHackLanguageIfNotExisting\<close>, made in a state \<open>st0\<close>, and run
  their pieces in any order, each call meeting any answer of its probes. Then every call
  that has returned a value has returned what the registry has under its client
  identifier: the entry of the identifier when the value is a \<open>HackLanguage\<close>, and
  always a \<open>HackLanguage\<close> when the identifier is no name of \<open>Object.prototype\<close>. The
  instances constructed since \<open>st0\<close> are the entries of the identifiers that have got
  an entry since \<open>st0\<close>, one instance for each identifier. When the calls are \<open>N > 0\<close>
  calls with one identifier \<open>cid\<close> and each has returned a \<open>HackLanguage\<close>, all \<open>N\<close>
  have returned the same instance, the entry of \<open>cid\<close>, and it is the only instance
  constructed (none is constructed when \<open>cid\<close> had an entry in \<open>st0\<close>). A call that
  resumes with resolved probes when its identifier has an entry returns that entry and
  leaves the state as it is, whatever its probes have found.
\<close>

lemma overlapping_calls_share_one_session:
  assumes calls: "\<forall>c\<in>set invs0. inv_phase c = Called"
    and run: "run_schedule d sched (st0, invs0) = (st, invs)"
  shows "map inv_client invs = map inv_client invs0 \<and>
     (\<forall>c\<in>set invs. \<forall>v. inv_phase c = Returned (Inr v) \<longrightarrow>
         registry_get st (getID (inv_client c)) = Some v) \<and>
     (\<forall>c\<in>set invs. \<forall>hl. inv_phase c = Returned (Inr (Session hl)) \<longrightarrow>
         clientToHackLanguage st (getID (inv_client c)) = Some hl) \<and>
     (\<forall>c\<in>set invs. \<forall>v. getID (inv_client c) \<notin> set object_prototype_properties \<and>
         inv_phase c = Returned (Inr v) \<longrightarrow> (\<exists>hl. v = Session hl)) \<and>
     (\<exists>evs ks. trace st = trace st0 @ evs \<and> distinct ks \<and>
        set ks = {k. clientToHackLanguage st0 k = None \<and> clientToHackLanguage st k \<noteq> None} \<and>
        map (clientToHackLanguage st) ks = map Some (constructed evs) \<and>
        (\<forall>cid. invs0 \<noteq> [] \<and>
           (\<forall>c\<in>set invs. getID (inv_client c) = cid \<and>
                          (\<exists>hl. inv_phase c = Returned (Inr (Session hl)))) \<longrightarrow>
           (\<exists>hl. clientToHackLanguage st cid = Some hl \<and>
                 (\<forall>c\<in>set invs. inv_phase c = Returned (Inr (Session hl))) \<and>
                 constructed evs =
                   (if clientToHackLanguage st0 cid = None then [hl] else [])))) \<and>
     (\<forall>c res np st1 hl.
         clientToHackLanguage st1 (getID c) = Some hl \<longrightarrow>
         create_resume c (Inr (res, np)) st1 = (Inr (Session hl), st1))"
proof -
  have inv: "overlap_inv st0 (st, invs)"
    using overlap_inv_run [OF overlap_inv_initial [OF calls], of st0 d sched] run by simp
  have clients: "map inv_client invs = map inv_client invs0"
    using clients_run_schedule [of d sched "(st0, invs0)"] run by simp
  from inv have got: "\<forall>c\<in>set invs. \<forall>v. inv_phase c = Returned (Inr v) \<longrightarrow>
         registry_get st (getID (inv_client c)) = Some v"
    and only: "\<forall>k. k \<notin> set (map (\<lambda>c. getID (inv_client c)) invs) \<longrightarrow>
            clientToHackLanguage st k = clientToHackLanguage st0 k"
    by (simp_all add: overlap_inv_def)
  have ret: "\<forall>c\<in>set invs. \<forall>hl. inv_phase c = Returned (Inr (Session hl)) \<longrightarrow>
         clientToHackLanguage st (getID (inv_client c)) = Some hl"
    using got by (auto dest: registry_get_Session)
  have sessions: "\<forall>c\<in>set invs. \<forall>v. getID (inv_client c) \<notin> set object_prototype_properties \<and>
         inv_phase c = Returned (Inr v) \<longrightarrow> (\<exists>hl. v = Session hl)"
  proof (intro ballI allI impI)
    fix c v
    assume c: "c \<in> set invs"
      and h: "getID (inv_client c) \<notin> set object_prototype_properties \<and>
              inv_phase c = Returned (Inr v)"
    with got have "registry_get st (getID (inv_client c)) = Some v" by blast
    with h show "\<exists>hl. v = Session hl"
      by (auto simp: registry_get_def split: option.splits)
  qed
  from inv obtain evs ks where tr: "trace st = trace st0 @ evs" and dist: "distinct ks"
    and ks: "set ks = {k. clientToHackLanguage st0 k = None \<and> clientToHackLanguage st k \<noteq> None}"
    and con: "map (clientToHackLanguage st) ks = map Some (constructed evs)"
    by (auto simp: overlap_inv_def)
  have all: "\<exists>hl. clientToHackLanguage st cid = Some hl \<and>
                 (\<forall>c\<in>set invs. inv_phase c = Returned (Inr (Session hl))) \<and>
                 constructed evs =
                   (if clientToHackLanguage st0 cid = None then [hl] else [])"
    if ne: "invs0 \<noteq> []"
      and fin: "\<forall>c\<in>set invs. getID (inv_client c) = cid \<and>
                  (\<exists>hl. inv_phase c = Returned (Inr (Session hl)))"
    for cid
  proof -
    from ne clients obtain c0 where c0: "c0 \<in> set invs" by (cases invs) auto
    with fin obtain hl where "inv_phase c0 = Returned (Inr (Session hl))" by blast
    moreover from fin c0 have "getID (inv_client c0) = cid" by blast
    ultimately have reg: "clientToHackLanguage st cid = Some hl" using ret c0 by blast
    have same: "\<forall>c\<in>set invs. inv_phase c = Returned (Inr (Session hl))"
    proof
      fix c assume c: "c \<in> set invs"
      with fin obtain h where h: "inv_phase c = Returned (Inr (Session h))" by blast
      with ret c have "clientToHackLanguage st (getID (inv_client c)) = Some h" by blast
      moreover from fin c have "getID (inv_client c) = cid" by blast
      ultimately have "h = hl" using reg by simp
      with h show "inv_phase c = Returned (Inr (Session hl))" by simp
    qed
    have sub: "set ks \<subseteq> {cid}"
    proof
      fix k assume k: "k \<in> set ks"
      with ks have "clientToHackLanguage st k \<noteq> clientToHackLanguage st0 k" by auto
      with only have "k \<in> set (map (\<lambda>c. getID (inv_client c)) invs)" by blast
      then obtain c where "c \<in> set invs" and "k = getID (inv_client c)" by auto
      with fin show "k \<in> {cid}" by simp
    qed
    have "constructed evs = (if clientToHackLanguage st0 cid = None then [hl] else [])"
    proof (cases "clientToHackLanguage st0 cid")
      case None
      with reg ks have "cid \<in> set ks" by simp
      with sub have "set ks = {cid}" by auto
      with dist have "ks = [cid]" by (intro distinct_singleton)
      with con reg None show ?thesis by (cases "constructed evs") auto
    next
      case (Some h0)
      with ks have "cid \<notin> set ks" by simp
      with sub have "ks = []" by (rule subset_singleton_Nil)
      with con Some show ?thesis by simp
    qed
    with reg same show ?thesis by blast
  qed
  have discard: "\<forall>c res np st1 hl.
         clientToHackLanguage st1 (getID c) = Some hl \<longrightarrow>
         create_resume c (Inr (res, np)) st1 = (Inr (Session hl), st1)"
    by (auto simp: create_resume_existing)
  have since: "\<exists>evs ks. trace st = trace st0 @ evs \<and> distinct ks \<and>
        set ks = {k. clientToHackLanguage st0 k = None \<and> clientToHackLanguage st k \<noteq> None} \<and>
        map (clientToHackLanguage st) ks = map Some (constructed evs) \<and>
        (\<forall>cid. invs0 \<noteq> [] \<and>
           (\<forall>c\<in>set invs. getID (inv_client c) = cid \<and>
                          (\<exists>hl. inv_phase c = Returned (Inr (Session hl)))) \<longrightarrow>
           (\<exists>hl. clientToHackLanguage st cid = Some hl \<and>
                 (\<forall>c\<in>set invs. inv_phase c = Returned (Inr (Session hl))) \<and>
                 constructed evs =
                   (if clientToHackLanguage st0 cid = None then [hl] else [])))"
  proof (rule exI [of _ evs], rule exI [of _ ks])
    have last: "\<forall>cid. invs0 \<noteq> [] \<and>
           (\<forall>c\<in>set invs. getID (inv_client c) = cid \<and>
                          (\<exists>hl. inv_phase c = Returned (Inr (Session hl)))) \<longrightarrow>
           (\<exists>hl. clientToHackLanguage st cid = Some hl \<and>
                 (\<forall>c\<in>set invs. inv_phase c = Returned (Inr (Session hl))) \<and>
                 constructed evs =
                   (if clientToHackLanguage st0 cid = None then [hl] else []))"
      using all by blast
    show "trace st = trace st0 @ evs \<and> distinct ks \<and>
        set ks = {k. clientToHackLanguage st0 k = None \<and> clientToHackLanguage st k \<noteq> None} \<and>
        map (clientToHackLanguage st) ks = map Some (constructed evs) \<and>
        (\<forall>cid. invs0 \<noteq> [] \<and>
           (\<forall>c\<in>set invs. getID (inv_client c) = cid \<and>
                          (\<exists>hl. inv_phase c = Returned (Inr (Session hl)))) \<longrightarrow>
           (\<exists>hl. clientToHackLanguage st cid = Some hl \<and>
                 (\<forall>c\<in>set invs. inv_phase c = Returned (Inr (Session hl))) \<and>
                 constructed evs =
                   (if clientToHackLanguage st0 cid = None then [hl] else [])))"
      by (intro conjI) (rule tr, rule dist, rule ks, rule con, rule last)
  qed
  show ?thesis
    by (intro conjI) (rule clients, rule got, rule ret, rule sessions, rule since, rule discard)
qed

text \<open>
  C1. The registry is to hold one \<open>HackLanguage\<close> for a client identifier and to give
  it to every one of the overlapping calls for that identifier. The code does not do so
  for an identifier that is the name of a property of \<open>Object.prototype\<close>. In the
  freshly loaded module, two overlapping calls for the identifier \<open>constructor\<close>, whose
  probes would find the backend and the marker file, both return at once the value that
  the registry object inherits under that name: no probe is called (the trace stays
  empty), no \<open>HackLanguage\<close> is constructed, and the registry gets no entry.
\<close>

theorem inherited_identifier_gets_no_session:
  "run_schedule (\<lambda>p. ''/www'') demo_schedule (initial_state, constructor_invocations) =
     (initial_state,
      [\<lparr>inv_client = constructor_client, inv_filePath = ''/www/a.php'',
        inv_phase = Returned (Inr (Inherited ''constructor''))\<rparr>,
       \<lparr>inv_client = constructor_client2, inv_filePath = ''/www/b.php'',
        inv_phase = Returned (Inr (Inherited ''constructor''))\<rparr>]) \<and>
   trace initial_state = [] \<and>
   clientToHackLanguage initial_state ''constructor'' = None"
  by (simp add: demo_defs step_defs)


section \<open>Facts used for the exported operations\<close>

lemmas demo_env_defs = demo_buffer_def demo_editor_def demo_position_def demo_env_def
  demo_env_no_exec_def demo_env_exec_throws_def demo_state_def demo_real_def
  demo_state_resolved_def demo_client_def constructor_client_def initial_state_def

lemmas create_defs = getHackLanguageForBuffer_def createHackLanguageIfNotExisting_def
  probes_def promise_all_def thrown_def create_begin_def create_resume_def
  registry_get_def object_prototype_properties_def emit_def Let_def
  trim_def isWhiteSpace_def truthy_def

lemma demo_session_resolved:
  "getHackLanguageForBuffer demo_env (getBuffer demo_editor) demo_state =
   (Inr (Session demo_real), demo_state_resolved)"
  by (simp add: demo_env_defs create_defs)

lemma create_resume_facts:
  assumes "create_resume c settled st = (r, st1)"
  shows "clientToHackLinterCache st1 = clientToHackLinterCache st \<and>
         (\<forall>k hl. clientToHackLanguage st k = Some hl \<longrightarrow> clientToHackLanguage st1 k = Some hl)"
proof (cases settled)
  case (Inl e)
  with assms show ?thesis by (simp add: create_resume_def)
next
  case (Inr found)
  obtain res np where found: "found = (res, np)" by (cases found)
  show ?thesis
  proof (cases "registry_get st (getID c)")
    case (Some v)
    with assms Inr found show ?thesis by (simp add: create_resume_def)
  next
    case None
    then have "clientToHackLanguage st (getID c) = None" by (simp add: registry_get_None)
    with assms Inr found None show ?thesis
      by (auto simp: create_resume_def emit_def Let_def)
  qed
qed

lemma create_keeps:
  assumes "createHackLanguageIfNotExisting E c fp st = (r, st1)"
  shows "clientToHackLinterCache st1 = clientToHackLinterCache st \<and>
         (\<forall>k hl. clientToHackLanguage st k = Some hl \<longrightarrow> clientToHackLanguage st1 k = Some hl)"
proof -
  obtain b st2 where b: "create_begin (dirname E) (thrown (exec E c ''which hh_client''))
      (thrown (findNearestFile E c ''.hhconfig'' (dirname E fp))) c fp st = (b, st2)"
    by (cases "create_begin (dirname E) (thrown (exec E c ''which hh_client''))
      (thrown (findNearestFile E c ''.hhconfig'' (dirname E fp))) c fp st")
  note begun = create_begin_facts [OF b]
  show ?thesis
  proof (cases b)
    case (Returns v)
    with assms b begun show ?thesis by (simp add: createHackLanguageIfNotExisting_def)
  next
    case (Fails e)
    with assms b begun show ?thesis by (simp add: createHackLanguageIfNotExisting_def)
  next
    case Suspends
    with assms b have "create_resume c (probes E c fp) st2 = (r, st1)"
      by (simp add: createHackLanguageIfNotExisting_def)
    from create_resume_facts [OF this] begun show ?thesis by simp
  qed
qed

lemma getHackLanguageForBuffer_keeps:
  assumes "getHackLanguageForBuffer E b st = (r, st1)"
  shows "clientToHackLinterCache st1 = clientToHackLinterCache st \<and>
         (\<forall>k hl. clientToHackLanguage st k = Some hl \<longrightarrow> clientToHackLanguage st1 k = Some hl)"
  using assms create_keeps unfolding getHackLanguageForBuffer_def Let_def by blast

lemma promise_all_rejected:
  "isl a \<or> isl b \<Longrightarrow> \<exists>e. promise_all f a b = Inl e \<and> (a = Inl e \<or> b = Inl e)"
  by (cases a; cases b) (auto simp: promise_all_def)

section \<open>The session made on first access\<close>

text \<open>
  When the registry has nothing under the client identifier, neither an own property nor
  an inherited one, and \<open>which hh_client\<close> and the search for \<open>.hhconfig\<close> from the
  directory of the file path have both resolved, the call returns a new instance and
  installs it, and the instance wraps the client itself exactly when the trimmed standard
  output is not empty and the search has found a path (a string that is not empty: the
  empty string is no path, and JavaScript reads it as false); in every other case it
  wraps a \<open>NullHackClient\<close>. The same holds of the piece after the \<open>await\<close> in whatever
  state it resumes, as long as the registry still has nothing under the identifier.
\<close>

lemma session_kind_follows_probes:
  assumes first: "registry_get st (getID client) = None"
    and ex: "exec E client ''which hh_client'' = Promise (Inr res)"
    and fnf: "findNearestFile E client ''.hhconfig'' (dirname E filePath) =
                Promise (Inr nearestPath)"
  shows "(\<exists>hl st1. createHackLanguageIfNotExisting E client filePath st =
                     (Inr (Session hl), st1) \<and>
      clientToHackLanguage st1 (getID client) = Some hl \<and>
      (hackClient hl = RealClient client \<longleftrightarrow>
         trim (stdout res) \<noteq> [] \<and> (\<exists>p. nearestPath = Some p \<and> p \<noteq> [])) \<and>
      (hackClient hl = NullHackClient \<longleftrightarrow>
         \<not> (trim (stdout res) \<noteq> [] \<and> (\<exists>p. nearestPath = Some p \<and> p \<noteq> [])))) \<and>
    (\<forall>st2. registry_get st2 (getID client) = None \<longrightarrow>
      (\<exists>hl st3. create_resume client (Inr (res, nearestPath)) st2 = (Inr (Session hl), st3) \<and>
         clientToHackLanguage st3 (getID client) = Some hl \<and>
         (hackClient hl = RealClient client \<longleftrightarrow>
            trim (stdout res) \<noteq> [] \<and> (\<exists>p. nearestPath = Some p \<and> p \<noteq> [])) \<and>
         (hackClient hl = NullHackClient \<longleftrightarrow>
            \<not> (trim (stdout res) \<noteq> [] \<and> (\<exists>p. nearestPath = Some p \<and> p \<noteq> [])))))"
proof -
  have settled: "probes E client filePath = Inr (res, nearestPath)"
    using ex fnf by (simp add: probes_def promise_all_def)
  have found: "truthy nearestPath \<longleftrightarrow> (\<exists>p. nearestPath = Some p \<and> p \<noteq> [])"
    by (cases nearestPath) (simp_all add: truthy_def)
  have resume: "\<exists>hl st3. create_resume client (Inr (res, nearestPath)) st2 =
                           (Inr (Session hl), st3) \<and>
         clientToHackLanguage st3 (getID client) = Some hl \<and>
         (hackClient hl = RealClient client \<longleftrightarrow>
            trim (stdout res) \<noteq> [] \<and> (\<exists>p. nearestPath = Some p \<and> p \<noteq> [])) \<and>
         (hackClient hl = NullHackClient \<longleftrightarrow>
            \<not> (trim (stdout res) \<noteq> [] \<and> (\<exists>p. nearestPath = Some p \<and> p \<noteq> [])))"
    if "registry_get st2 (getID client) = None" for st2
    using that found by (simp add: create_resume_def emit_def Let_def)
  let ?st = "emit [FindNearestFile client ''.hhconfig'' (dirname E filePath)]
               (emit [Exec client ''which hh_client''] st)"
  have started: "create_begin (dirname E) (thrown (exec E client ''which hh_client''))
      (thrown (findNearestFile E client ''.hhconfig'' (dirname E filePath)))
      client filePath st = (Suspends, ?st)"
    using first ex fnf by (simp add: create_begin_def thrown_def Let_def)
  have "registry_get ?st (getID client) = None"
    using first by (simp add: emit_def registry_get_def)
  from resume [OF this] have whole:
    "\<exists>hl st1. createHackLanguageIfNotExisting E client filePath st = (Inr (Session hl), st1) \<and>
      clientToHackLanguage st1 (getID client) = Some hl \<and>
      (hackClient hl = RealClient client \<longleftrightarrow>
         trim (stdout res) \<noteq> [] \<and> (\<exists>p. nearestPath = Some p \<and> p \<noteq> [])) \<and>
      (hackClient hl = NullHackClient \<longleftrightarrow>
         \<not> (trim (stdout res) \<noteq> [] \<and> (\<exists>p. nearestPath = Some p \<and> p \<noteq> [])))"
    by (simp add: createHackLanguageIfNotExisting_def started settled)
  from whole resume show ?thesis by blast
qed

text \<open>
  C2. The first access for a client identifier is to make a session that wraps the
  client when both probes succeed, and a \<open>NullHackClient\<close> otherwise. The code does not
  do so for an identifier that is the name of a property of \<open>Object.prototype\<close>. In
  the freshly loaded module, with a backend that \<open>which hh_client\<close> finds and a marker
  file that the search finds, the first call for the identifier \<open>constructor\<close> returns
  the value that the registry object inherits under that name and leaves the state as it
  was: neither probe is called and no session, real or null, is made.
\<close>

theorem inherited_identifier_is_not_probed:
  "createHackLanguageIfNotExisting demo_env constructor_client ''/www/a.php'' initial_state =
     (Inr (Inherited ''constructor''), initial_state) \<and>
   exec demo_env constructor_client ''which hh_client'' =
     Promise (Inr \<lparr>stdout = ''/usr/bin/hh_client'' @ [CHR 0x0A], stderr = [], exitCode = 0\<rparr>) \<and>
   findNearestFile demo_env constructor_client ''.hhconfig'' (dirname demo_env ''/www/a.php'') =
     Promise (Inr (Some ''/www'')) \<and>
   clientToHackLanguage initial_state (getID constructor_client) = None \<and>
   trace initial_state = []"
  by (simp add: demo_env_defs create_defs)

section \<open>A failing probe\<close>

text \<open>
  C6. When the registry has nothing under the client identifier, so that the probes are
  started, and \<open>which hh_client\<close> or the search for \<open>.hhconfig\<close> fails, by throwing or
  by a rejected promise, \<open>createHackLanguageIfNotExisting\<close> ends with the error of a
  probe that has failed, and the registry, the diagnostics cache and the instance counter
  are what they were. The trace shows the probes that were called and no construction:
  \<open>exec\<close> alone when \<open>exec\<close> throws, and both probes otherwise. A call that resumes
  with a rejected \<open>Promise.all\<close> ends with that error in whatever state it resumes, and
  leaves the state as it is.
\<close>

theorem probe_failure_propagates:
  assumes first: "registry_get st (getID client) = None"
    and failed: "failure (exec E client ''which hh_client'') \<noteq> None \<or>
                 failure (findNearestFile E client ''.hhconfig'' (dirname E filePath)) \<noteq> None"
  shows "\<exists>e st1. createHackLanguageIfNotExisting E client filePath st = (Inl e, st1) \<and>
      (failure (exec E client ''which hh_client'') = Some e \<or>
       failure (findNearestFile E client ''.hhconfig'' (dirname E filePath)) = Some e) \<and>
      clientToHackLanguage st1 = clientToHackLanguage st \<and>
      clientToHackLinterCache st1 = clientToHackLinterCache st \<and>
      next_instance st1 = next_instance st \<and>
      trace st1 = trace st @
        (case exec E client ''which hh_client'' of
           Throws x \<Rightarrow> [Exec client ''which hh_client'']
         | Promise p \<Rightarrow> [Exec client ''which hh_client'',
                         FindNearestFile client ''.hhconfig'' (dirname E filePath)]) \<and>
      (\<forall>e2 st2. create_resume client (Inl e2) st2 = (Inl e2, st2))"
proof -
  let ?ex = "exec E client ''which hh_client''"
  let ?fnf = "findNearestFile E client ''.hhconfig'' (dirname E filePath)"
  have resume: "\<forall>e2 st2. create_resume client (Inl e2) st2 = (Inl e2, st2)"
    by (simp add: create_resume_def)
  show ?thesis
  proof (cases ?ex)
    case (Throws e1)
    with first resume show ?thesis
      by (simp add: createHackLanguageIfNotExisting_def create_begin_def thrown_def
            failure_def emit_def Let_def)
  next
    case ex: (Promise p1)
    show ?thesis
    proof (cases ?fnf)
      case (Throws e2)
      with ex first resume show ?thesis
        by (simp add: createHackLanguageIfNotExisting_def create_begin_def thrown_def
              failure_def emit_def Let_def)
    next
      case fnf: (Promise p2)
      from failed ex fnf have "isl p1 \<or> isl p2"
        by (auto simp: failure_def isl_def split: sum.splits)
      from promise_all_rejected [OF this, of "findNearestFile_rejects_first E"]
      obtain e where all: "promise_all (findNearestFile_rejects_first E) p1 p2 = Inl e"
        and which: "p1 = Inl e \<or> p2 = Inl e" by blast
      have settled: "probes E client filePath = Inl e"
        using ex fnf all by (simp add: probes_def)
      have fails: "failure ?ex = Some e \<or> failure ?fnf = Some e"
        using which ex fnf by (auto simp: failure_def)
      show ?thesis
        using ex fnf first settled fails resume
        by (simp add: createHackLanguageIfNotExisting_def create_begin_def thrown_def
              create_resume_def emit_def Let_def)
    qed
  qed
qed

theorem probe_failure_propagates_witness:
  "createHackLanguageIfNotExisting demo_env_no_exec demo_client ''/www/a.php'' demo_state =
     (Inl (Error ''ENOENT''),
      demo_state\<lparr>trace := [Exec demo_client ''which hh_client'',
                            FindNearestFile demo_client ''.hhconfig'' ''/www'']\<rparr>) \<and>
   createHackLanguageIfNotExisting demo_env_exec_throws demo_client ''/www/a.php'' demo_state =
     (Inl (Error ''EPIPE''),
      demo_state\<lparr>trace := [Exec demo_client ''which hh_client'']\<rparr>)"
proof -
  have first: "registry_get demo_state (getID demo_client) = None"
    by (simp add: demo_env_defs registry_get_def object_prototype_properties_def)
  have rejected: "failure (exec demo_env_no_exec demo_client ''which hh_client'') \<noteq> None \<or>
      failure (findNearestFile demo_env_no_exec demo_client ''.hhconfig''
                 (dirname demo_env_no_exec ''/www/a.php'')) \<noteq> None"
    by (simp add: demo_env_defs failure_def)
  have throws: "failure (exec demo_env_exec_throws demo_client ''which hh_client'') \<noteq> None \<or>
      failure (findNearestFile demo_env_exec_throws demo_client ''.hhconfig''
                 (dirname demo_env_exec_throws ''/www/a.php'')) \<noteq> None"
    by (simp add: demo_env_defs failure_def)
  from probe_failure_propagates [OF first rejected]
  obtain e st1 where one: "createHackLanguageIfNotExisting demo_env_no_exec demo_client
       ''/www/a.php'' demo_state = (Inl e, st1)"
    by blast
  from probe_failure_propagates [OF first throws]
  obtain e' st2 where two: "createHackLanguageIfNotExisting demo_env_exec_throws demo_client
       ''/www/a.php'' demo_state = (Inl e', st2)"
    by blast
  have first_run: "createHackLanguageIfNotExisting demo_env_no_exec demo_client ''/www/a.php''
       demo_state =
     (Inl (Error ''ENOENT''),
      demo_state\<lparr>trace := [Exec demo_client ''which hh_client'',
                            FindNearestFile demo_client ''.hhconfig'' ''/www'']\<rparr>)"
    by (simp add: demo_env_defs create_defs)
  have second_run: "createHackLanguageIfNotExisting demo_env_exec_throws demo_client
       ''/www/a.php'' demo_state =
     (Inl (Error ''EPIPE''),
      demo_state\<lparr>trace := [Exec demo_client ''which hh_client'']\<rparr>)"
    by (simp add: demo_env_defs create_defs)
  from one two first_run second_run show ?thesis
    by simp
qed

section \<open>Coordinates of a definition lookup\<close>

text \<open>
  C3. Once the session is resolved, \<open>findDefinition\<close> called with a 0-based line and
  column calls \<open>getDefinition\<close> with \<open>line + 1\<close> and \<open>column + 1\<close> and with nothing
  else; and when the answer is a list whose first location has the 1-based line \<open>L\<close>
  and column \<open>C\<close>, the location given to the caller has line \<open>L - 1\<close> and column
  \<open>C - 1\<close>.
\<close>

theorem findDefinition_translates_coordinates:
  assumes session: "getHackLanguageForBuffer E (getBuffer editor) st = (Inr (Session hl), st1)"
  shows "snd (findDefinition E editor line_v column_v st) =
           emit [GetDefinition hl (url_path (url_parse E (getPath editor))) (getText editor)
                   (line_v + 1) (column_v + 1) (lineForRow E (getBuffer editor) line_v)] st1 \<and>
         (\<forall>pos rest.
            getDefinition E hl (url_path (url_parse E (getPath editor))) (getText editor)
              (line_v + 1) (column_v + 1) (lineForRow E (getBuffer editor) line_v) =
              Inr (Some (pos # rest)) \<longrightarrow>
            (\<exists>loc. fst (findDefinition E editor line_v column_v st) = Inr (Some loc) \<and>
                   def_line loc = pos_line pos - 1 \<and> def_column loc = pos_column pos - 1))"
  using session
  by (auto simp: findDefinition_def Let_def split: sum.splits option.splits)

theorem findDefinition_translates_coordinates_witness:
  "findDefinition demo_env demo_editor 3 7 demo_state =
     (Inr (Some \<lparr>def_file = ''/www/lib.php'', def_line = 9, def_column = 4\<rparr>),
      emit [GetDefinition demo_real ''/www/a.php'' ''<?hh'' 4 8 (Some ''<?hh'')]
        demo_state_resolved)"
proof -
  note main = findDefinition_translates_coordinates [OF demo_session_resolved, of 3 7]
  have answer: "getDefinition demo_env demo_real (url_path (url_parse demo_env (getPath demo_editor)))
      (getText demo_editor) (3 + 1) (7 + 1) (lineForRow demo_env (getBuffer demo_editor) 3) =
      Inr (Some (demo_position # []))"
    by (simp add: demo_env_defs)
  from main answer obtain loc where
    "fst (findDefinition demo_env demo_editor 3 7 demo_state) = Inr (Some loc)"
    "def_line loc = pos_line demo_position - 1"
    "def_column loc = pos_column demo_position - 1"
    by blast
  moreover from main have "snd (findDefinition demo_env demo_editor 3 7 demo_state) =
      emit [GetDefinition demo_real (url_path (url_parse demo_env (getPath demo_editor)))
              (getText demo_editor) (3 + 1) (7 + 1)
              (lineForRow demo_env (getBuffer demo_editor) 3)] demo_state_resolved"
    by blast
  moreover have "fst (findDefinition demo_env demo_editor 3 7 demo_state) =
      Inr (Some \<lparr>def_file = ''/www/lib.php'', def_line = 9, def_column = 4\<rparr>)"
    by (simp add: findDefinition_def demo_session_resolved Let_def)
       (simp add: demo_env_defs getFilePath_def)
  ultimately show ?thesis
    by (simp add: prod_eq_iff demo_env_defs)
qed

section \<open>Merging the cached diagnostics\<close>



section \<open>A failing fetch of the server diagnostics\<close>

text \<open>
  C5. In \<open>onDidSave\<close>, once the session is resolved: when \<open>updateFile\<close> has completed
  and \<open>getServerDiagnostics\<close> then fails, the failure is logged, \<open>onDidSave\<close> returns
  without an error, the diagnostics cache is what it was, and the trace shows
  \<open>updateFile\<close> before the fetch and no dispatch of \<open>linter:lint\<close>. The fetch is not
  attempted before \<open>updateFile\<close> has completed: when \<open>updateFile\<close> fails, \<open>onDidSave\<close>
  ends there with that error.
\<close>

theorem onDidSave_survives_getServerDiagnostics_failure:
  assumes session: "getHackLanguageForBuffer E (getBuffer editor) st = (Inr (Session hl), st1)"
  shows "(\<forall>err.
            updateFile E hl (url_path (url_parse E (getPath editor))) (getText editor) = Inr () \<and>
            getServerDiagnostics E hl = Inl err \<longrightarrow>
            (\<exists>st2. onDidSave E editor st = (Inr (), st2) \<and>
               clientToHackLinterCache st2 = clientToHackLinterCache st \<and>
               trace st2 = trace st1 @
                 [UpdateFile hl (url_path (url_parse E (getPath editor))) (getText editor),
                  GetServerDiagnostics hl,
                  LoggerError ''Hack: getServerDiagnostics failed'' err,
                  UpdateDependencies hl])) \<and>
         (\<forall>e. updateFile E hl (url_path (url_parse E (getPath editor))) (getText editor) = Inl e \<longrightarrow>
            onDidSave E editor st =
              (Inl e, emit [UpdateFile hl (url_path (url_parse E (getPath editor)))
                              (getText editor)] st1))"
  using session getHackLanguageForBuffer_keeps [OF session]
  by (auto simp: onDidSave_def Let_def emit_def split: sum.splits option.splits)

theorem onDidSave_survives_getServerDiagnostics_failure_witness:
  "onDidSave demo_env demo_editor demo_state =
     (Inr (),
      demo_state_resolved
        \<lparr>trace := trace demo_state_resolved @
           [UpdateFile demo_real ''/www/a.php'' ''<?hh'',
            GetServerDiagnostics demo_real,
            LoggerError ''Hack: getServerDiagnostics failed'' (Error ''timeout''),
            UpdateDependencies demo_real]\<rparr>)"
proof -
  have upd: "updateFile demo_env demo_real (url_path (url_parse demo_env (getPath demo_editor)))
      (getText demo_editor) = Inr ()"
    by (simp add: demo_env_defs)
  have fail: "getServerDiagnostics demo_env demo_real = Inl (Error ''timeout'')"
    by (simp add: demo_env_defs)
  from onDidSave_survives_getServerDiagnostics_failure [OF demo_session_resolved] upd fail
  obtain st2 where run: "onDidSave demo_env demo_editor demo_state = (Inr (), st2)"
    by blast
  have "snd (onDidSave demo_env demo_editor demo_state) =
      demo_state_resolved
        \<lparr>trace := trace demo_state_resolved @
           [UpdateFile demo_real ''/www/a.php'' ''<?hh'',
            GetServerDiagnostics demo_real,
            LoggerError ''Hack: getServerDiagnostics failed'' (Error ''timeout''),
            UpdateDependencies demo_real]\<rparr>"
    by (simp add: onDidSave_def demo_session_resolved Let_def)
       (simp add: demo_env_defs emit_def)
  with run show ?thesis by simp
qed

section \<open>When no definition is found\<close>

text \<open>
  C7. Once the session is resolved and \<open>getDefinition\<close> has answered with \<open>result\<close>,
  \<open>findDefinition\<close> returns \<open>null\<close> exactly when \<open>result\<close> is absent or the empty
  list; otherwise the location it returns is made of the first element of the list and
  of the editor's path only, whatever follows the first element.
\<close>

theorem findDefinition_null_iff_no_location:
  assumes session: "getHackLanguageForBuffer E (getBuffer editor) st = (Inr (Session hl), st1)"
    and answer: "getDefinition E hl (url_path (url_parse E (getPath editor))) (getText editor)
              (line_v + 1) (column_v + 1) (lineForRow E (getBuffer editor) line_v) = Inr result"
  shows "(fst (findDefinition E editor line_v column_v st) = Inr None \<longleftrightarrow>
            result = None \<or> result = Some []) \<and>
         (\<forall>pos rest. result = Some (pos # rest) \<longrightarrow>
            fst (findDefinition E editor line_v column_v st) =
              Inr (Some \<lparr>def_file = getFilePath (pos_path pos)
                                    (protocol (url_parse E (getPath editor)))
                                    (host (url_parse E (getPath editor))),
                         def_line = pos_line pos - 1,
                         def_column = pos_column pos - 1\<rparr>))"
  using session answer
  by (auto simp: findDefinition_def Let_def split: sum.splits option.splits)

theorem findDefinition_null_iff_no_location_witness:
  "fst (findDefinition demo_env demo_editor 0 0 demo_state) =
     Inr (Some \<lparr>def_file = ''/www/lib.php'', def_line = 9, def_column = 4\<rparr>) \<and>
   fst (findDefinition demo_env demo_editor 0 0 demo_state) \<noteq> Inr None"
proof -
  have answer: "getDefinition demo_env demo_real
      (url_path (url_parse demo_env (getPath demo_editor)))
      (getText demo_editor) (0 + 1) (0 + 1) (lineForRow demo_env (getBuffer demo_editor) 0) =
      Inr (Some [demo_position])"
    by (simp add: demo_env_defs)
  note main = findDefinition_null_iff_no_location [OF demo_session_resolved answer]
  from main have "fst (findDefinition demo_env demo_editor 0 0 demo_state) =
      Inr (Some \<lparr>def_file = getFilePath (pos_path demo_position)
                              (protocol (url_parse demo_env (getPath demo_editor)))
                              (host (url_parse demo_env (getPath demo_editor))),
                   def_line = pos_line demo_position - 1,
                   def_column = pos_column demo_position - 1\<rparr>)"
    by blast
  then show ?thesis
    by (simp add: demo_env_defs getFilePath_def)
qed

section \<open>The fast path\<close>

text \<open>
  C8. When the registry has an entry for the client identifier,
  \<open>createHackLanguageIfNotExisting\<close> returns that entry in its first piece, before any
  \<open>await\<close>, whatever the probes would do, and the state is what it was: the trace
  has no new call, so that neither \<open>exec\<close> nor \<open>findNearestFile\<close> has been called.
\<close>

theorem existing_entry_returned_without_probing:
  assumes entry: "clientToHackLanguage st (getID client) = Some hl"
  shows "createHackLanguageIfNotExisting E client filePath st = (Inr (Session hl), st) \<and>
         create_begin (dirname E) exec_thrown find_thrown client filePath st =
           (Returns (Session hl), st)"
  using entry
  by (simp add: createHackLanguageIfNotExisting_def create_begin_def registry_get_def)

theorem existing_entry_returned_without_probing_witness:
  "createHackLanguageIfNotExisting demo_env_no_exec demo_client ''/www/a.php''
     demo_state_resolved = (Inr (Session demo_real), demo_state_resolved) \<and>
   clientToHackLanguage demo_state_resolved (getID demo_client) = Some demo_real"
proof -
  have entry: "clientToHackLanguage demo_state_resolved (getID demo_client) = Some demo_real"
    by (simp add: demo_env_defs)
  from existing_entry_returned_without_probing [OF entry] entry show ?thesis
    by blast
qed

section \<open>Facts about the registry under the exported operations\<close>

lemma getHackLanguageForBuffer_keeps_entry:
  "clientToHackLanguage st k = Some hl \<Longrightarrow>
   clientToHackLanguage (snd (getHackLanguageForBuffer E b st)) k = Some hl"
  using getHackLanguageForBuffer_keeps [of E b st "fst (getHackLanguageForBuffer E b st)"
      "snd (getHackLanguageForBuffer E b st)"]
  by simp

lemma registry_emit: "clientToHackLanguage (emit evs st) = clientToHackLanguage st"
  by (simp add: emit_def)

lemma findDiagnostics_registry:
  "clientToHackLanguage (snd (findDiagnostics E editor st)) =
   clientToHackLanguage (snd (getHackLanguageForBuffer E (getBuffer editor) st))"
  by (simp add: findDiagnostics_def Let_def registry_emit
        split: prod.split sum.split option.split registry_value.split)

lemma fetchCompletionsForEditor_registry:
  "clientToHackLanguage (snd (fetchCompletionsForEditor E editor p st)) =
   clientToHackLanguage (snd (getHackLanguageForBuffer E (getBuffer editor) st))"
  by (simp add: fetchCompletionsForEditor_def Let_def registry_emit
        split: prod.split sum.split option.split registry_value.split)

lemma formatSourceFromEditor_registry:
  "clientToHackLanguage (snd (formatSourceFromEditor E editor r st)) =
   clientToHackLanguage (snd (getHackLanguageForBuffer E (getBuffer editor) st))"
  by (simp add: formatSourceFromEditor_def Let_def registry_emit
        split: prod.split sum.split option.split registry_value.split)

lemma typeHintFromEditor_registry:
  "clientToHackLanguage (snd (typeHintFromEditor E editor p st)) =
   clientToHackLanguage (snd (getHackLanguageForBuffer E (getBuffer editor) st))"
  by (simp add: typeHintFromEditor_def Let_def registry_emit
        split: prod.split sum.split option.split registry_value.split)

lemma findDefinition_registry:
  "clientToHackLanguage (snd (findDefinition E editor l c st)) =
   clientToHackLanguage (snd (getHackLanguageForBuffer E (getBuffer editor) st))"
  by (simp add: findDefinition_def Let_def registry_emit
        split: prod.split sum.split option.split registry_value.split)

lemma onDidSave_registry:
  "clientToHackLanguage (snd (onDidSave E editor st)) =
   clientToHackLanguage (snd (getHackLanguageForBuffer E (getBuffer editor) st))"
  by (simp add: onDidSave_def Let_def registry_emit
        split: prod.split sum.split option.split registry_value.split)

lemma perform_keeps:
  "clientToHackLanguage st k = Some hl \<Longrightarrow>
   clientToHackLanguage (perform E r st) k = Some hl"
  by (cases r)
     (simp_all add: findDiagnostics_registry fetchCompletionsForEditor_registry
        formatSourceFromEditor_registry typeHintFromEditor_registry findDefinition_registry
        onDidSave_registry getHackLanguageForBuffer_keeps_entry)

lemma perform_all_keeps:
  "clientToHackLanguage st k = Some hl \<Longrightarrow>
   clientToHackLanguage (perform_all rs st) k = Some hl"
proof (induction rs arbitrary: st)
  case Nil
  then show ?case by simp
next
  case (Cons a rs)
  obtain E r where a: "a = (E, r)" by (cases a)
  from Cons.IH [OF perform_keeps [OF Cons.prems, of E r]] a show ?case by simp
qed

lemma create_begin_registry:
  "clientToHackLanguage (snd (create_begin d x y c fp st)) = clientToHackLanguage st"
  using create_begin_facts [of d x y c fp st "fst (create_begin d x y c fp st)"
      "snd (create_begin d x y c fp st)"]
  by simp

lemma create_resume_keeps:
  "clientToHackLanguage st k = Some hl \<Longrightarrow>
   clientToHackLanguage (snd (create_resume c settled st)) k = Some hl"
  using create_resume_facts [of c settled st "fst (create_resume c settled st)"
      "snd (create_resume c settled st)"]
  by simp

lemma sched_step_keeps:
  assumes "clientToHackLanguage (fst sys) k = Some hl"
  shows "clientToHackLanguage (fst (sched_step d item sys)) k = Some hl"
proof -
  obtain st invs where sys: "sys = (st, invs)" by (cases sys)
  obtain i a where item: "item = (i, a)" by (cases item)
  from assms sys have entry: "clientToHackLanguage st k = Some hl" by simp
  show ?thesis
  proof (cases "i < length invs")
    case False
    then show ?thesis using entry sys item by (simp add: sched_step_def)
  next
    case True
    show ?thesis
    proof (cases "inv_phase (invs ! i)")
      case Called
      have "fst (sched_step d item sys) =
            snd (begin_call d a (inv_client (invs ! i)) (inv_filePath (invs ! i)) st)"
        using sys item True Called
        by (simp add: sched_step_def Let_def split: prod.split begun.split)
      moreover have "clientToHackLanguage
            (snd (begin_call d a (inv_client (invs ! i)) (inv_filePath (invs ! i)) st)) =
          clientToHackLanguage st"
        by (cases a) (simp_all add: begin_call_def create_begin_registry)
      ultimately show ?thesis using entry by simp
    next
      case Suspended
      show ?thesis
      proof (cases a)
        case (Settled settled)
        have "fst (sched_step d item sys) =
              snd (create_resume (inv_client (invs ! i)) settled st)"
          using sys item True Suspended Settled
          by (simp add: sched_step_def Let_def split: prod.split)
        then show ?thesis using entry by (simp add: create_resume_keeps)
      next
        case (ExecThrows e)
        then show ?thesis using entry sys item True Suspended
          by (simp add: sched_step_def Let_def)
      next
        case (FindNearestFileThrows e)
        then show ?thesis using entry sys item True Suspended
          by (simp add: sched_step_def Let_def)
      qed
    next
      case (Returned r)
      then show ?thesis using entry sys item True by (simp add: sched_step_def Let_def)
    qed
  qed
qed

lemma run_schedule_keeps:
  "clientToHackLanguage (fst sys) k = Some hl \<Longrightarrow>
   clientToHackLanguage (fst (run_schedule d sched sys)) k = Some hl"
proof (induction sched arbitrary: sys)
  case Nil
  then show ?case by simp
next
  case (Cons item items)
  from Cons.IH [OF sched_step_keeps [OF Cons.prems]] show ?case by simp
qed

section \<open>Entries of the registry stay\<close>

text \<open>
  C9. An entry of the registry stays, with the same instance under the same key, through
  any sequence of calls of the six exported operations, whatever the collaborators answer
  to each, and through any interleaving of the pieces of any calls of
  \<open>createHackLanguageIfNotExisting\<close>, the only code that writes the registry.
\<close>

theorem registry_entries_are_never_removed_or_replaced:
  assumes entry: "clientToHackLanguage st k = Some hl"
  shows "clientToHackLanguage (perform_all rs st) k = Some hl \<and>
         clientToHackLanguage (fst (run_schedule d sched (st, invs))) k = Some hl"
  using perform_all_keeps [OF entry] run_schedule_keeps [of "(st, invs)" k hl] entry
  by simp

theorem registry_entries_are_never_removed_or_replaced_witness:
  "clientToHackLanguage demo_state_resolved ''local'' = Some demo_real \<and>
   clientToHackLanguage
     (perform_all [(demo_env, OnDidSave demo_editor), (demo_env_no_exec, FindDefinition demo_editor 0 0)]
        demo_state_resolved) ''local'' = Some demo_real \<and>
   clientToHackLanguage
     (fst (run_schedule (\<lambda>p. ''/www'') demo_schedule (demo_state_resolved, demo_invocations)))
     ''local'' = Some demo_real"
proof -
  have entry: "clientToHackLanguage demo_state_resolved ''local'' = Some demo_real"
    by (simp add: demo_env_defs)
  from registry_entries_are_never_removed_or_replaced [OF entry] entry show ?thesis
    by blast
qed

section \<open>Facts about \<open>indexOf\<close>\<close>

lemma indexOf_from_nonneg:
  "0 \<le> k \<Longrightarrow> (0 \<le> indexOf_from k s t) = sublist t s"
  by (induction s arbitrary: k) (auto simp: sublist_Cons_right)

lemma indexOf_nonneg: "(indexOf s t \<ge> 0) = sublist t s"
  by (simp add: indexOf_def indexOf_from_nonneg)

lemma demo_lower:
  "toLowerCase ''FOO'' = ''foo''" "toLowerCase ''FooBar'' = ''foobar''"
  "toLowerCase ''baz'' = ''baz''" "toLowerCase ''$foo'' = ''$foo''"
  by code_simp+

section \<open>Completions are filtered by the prefix\<close>

text \<open>
  C10. Once the session is resolved and \<open>getCompletions\<close> has answered with a list,
  \<open>fetchCompletionsForEditor\<close> returns the elements of that list, in its order, whose
  \<open>matchText\<close> in lower case has the prefix in lower case as a substring, and no other:
  every completion it returns contains the prefix in that sense.
\<close>

theorem fetchCompletions_keeps_those_containing_prefix:
  assumes session: "getHackLanguageForBuffer E (getBuffer editor) st = (Inr (Session hl), st1)"
    and answer: "getCompletions E hl (url_path (url_parse E (getPath editor))) (getText editor)
                   (characterIndexForPosition E (getBuffer editor)
                      (lastCursorBufferPosition editor)) = Inr completions"
  shows "\<exists>result. fst (fetchCompletionsForEditor E editor prefix_v st) = Inr result \<and>
           result = filter (\<lambda>c. \<exists>ps ss. toLowerCase (matchText c) =
                                          ps @ toLowerCase prefix_v @ ss) completions \<and>
           (\<forall>c\<in>set result. \<exists>ps ss. toLowerCase (matchText c) =
                                          ps @ toLowerCase prefix_v @ ss)"
  using session answer
  by (auto simp: fetchCompletionsForEditor_def Let_def indexOf_nonneg sublist_def)

theorem fetchCompletions_keeps_those_containing_prefix_witness:
  "fst (fetchCompletionsForEditor demo_env demo_editor ''FOO'' demo_state) =
     Inr [\<lparr>matchText = ''FooBar''\<rparr>, \<lparr>matchText = ''$foo''\<rparr>]"
proof -
  have answer: "getCompletions demo_env demo_real
      (url_path (url_parse demo_env (getPath demo_editor))) (getText demo_editor)
      (characterIndexForPosition demo_env (getBuffer demo_editor)
         (lastCursorBufferPosition demo_editor)) =
      Inr [\<lparr>matchText = ''FooBar''\<rparr>, \<lparr>matchText = ''baz''\<rparr>, \<lparr>matchText = ''$foo''\<rparr>]"
    by (simp add: demo_env_defs)
  from fetchCompletions_keeps_those_containing_prefix [OF demo_session_resolved answer, of "''FOO''"]
  obtain result where
    "fst (fetchCompletionsForEditor demo_env demo_editor ''FOO'' demo_state) = Inr result"
    by blast
  moreover have "fst (fetchCompletionsForEditor demo_env demo_editor ''FOO'' demo_state) =
     Inr [\<lparr>matchText = ''FooBar''\<rparr>, \<lparr>matchText = ''$foo''\<rparr>]"
    by (simp add: fetchCompletionsForEditor_def demo_session_resolved Let_def)
       (simp add: demo_env_defs indexOf_def demo_lower)
  ultimately show ?thesis by simp
qed

section \<open>Own properties of the registry in the states that the module reaches\<close>

lemma own_keys_cong:
  "clientToHackLanguage st1 = clientToHackLanguage st \<Longrightarrow>
   own_keys_not_inherited st1 = own_keys_not_inherited st"
  by (simp add: own_keys_not_inherited_def)

lemma own_keys_initial: "own_keys_not_inherited initial_state"
  by (simp add: own_keys_not_inherited_def initial_state_def)

lemma own_keys_create_resume:
  assumes "own_keys_not_inherited st"
  shows "own_keys_not_inherited (snd (create_resume c settled st))"
proof (cases settled)
  case (Inl e)
  with assms show ?thesis by (simp add: create_resume_def)
next
  case (Inr found)
  obtain res np where found: "found = (res, np)" by (cases found)
  show ?thesis
  proof (cases "registry_get st (getID c)")
    case (Some v)
    with assms Inr found show ?thesis by (simp add: create_resume_def)
  next
    case None
    then have "getID c \<notin> set object_prototype_properties" by (simp add: registry_get_None)
    with assms Inr found None show ?thesis
      by (auto simp: create_resume_def own_keys_not_inherited_def emit_def Let_def)
  qed
qed

lemma own_keys_create:
  assumes "own_keys_not_inherited st"
  shows "own_keys_not_inherited (snd (createHackLanguageIfNotExisting E c fp st))"
proof -
  obtain b st2 where b: "create_begin (dirname E) (thrown (exec E c ''which hh_client''))
      (thrown (findNearestFile E c ''.hhconfig'' (dirname E fp))) c fp st = (b, st2)"
    by (cases "create_begin (dirname E) (thrown (exec E c ''which hh_client''))
      (thrown (findNearestFile E c ''.hhconfig'' (dirname E fp))) c fp st")
  from create_begin_facts [OF b] have "clientToHackLanguage st2 = clientToHackLanguage st"
    by simp
  from own_keys_cong [OF this] assms have st2: "own_keys_not_inherited st2" by simp
  show ?thesis
  proof (cases b)
    case (Returns v)
    with b have "snd (createHackLanguageIfNotExisting E c fp st) = st2"
      by (simp add: createHackLanguageIfNotExisting_def)
    with st2 show ?thesis by simp
  next
    case (Fails e)
    with b have "snd (createHackLanguageIfNotExisting E c fp st) = st2"
      by (simp add: createHackLanguageIfNotExisting_def)
    with st2 show ?thesis by simp
  next
    case Suspends
    with b have "snd (createHackLanguageIfNotExisting E c fp st) =
        snd (create_resume c (probes E c fp) st2)"
      by (simp add: createHackLanguageIfNotExisting_def)
    with own_keys_create_resume [OF st2] show ?thesis by simp
  qed
qed

lemma own_keys_perform:
  assumes "own_keys_not_inherited st"
  shows "own_keys_not_inherited (perform E r st)"
proof -
  have session: "own_keys_not_inherited (snd (getHackLanguageForBuffer E b st))" for b
    using own_keys_create [OF assms] by (simp add: getHackLanguageForBuffer_def Let_def)
  have "\<exists>b. clientToHackLanguage (perform E r st) =
             clientToHackLanguage (snd (getHackLanguageForBuffer E b st))"
  proof (cases r)
    case (FindDiagnostics editor)
    then show ?thesis by (simp add: findDiagnostics_registry) blast
  next
    case (FetchCompletionsForEditor editor p)
    then show ?thesis by (simp add: fetchCompletionsForEditor_registry) blast
  next
    case (FormatSourceFromEditor editor rg)
    then show ?thesis by (simp add: formatSourceFromEditor_registry) blast
  next
    case (TypeHintFromEditor editor p)
    then show ?thesis by (simp add: typeHintFromEditor_registry) blast
  next
    case (FindDefinition editor l c)
    then show ?thesis by (simp add: findDefinition_registry) blast
  next
    case (OnDidSave editor)
    then show ?thesis by (simp add: onDidSave_registry) blast
  qed
  then obtain b where "clientToHackLanguage (perform E r st) =
             clientToHackLanguage (snd (getHackLanguageForBuffer E b st))" ..
  from own_keys_cong [OF this] session show ?thesis by simp
qed

lemma own_keys_perform_all:
  "own_keys_not_inherited st \<Longrightarrow> own_keys_not_inherited (perform_all rs st)"
proof (induction rs arbitrary: st)
  case Nil
  then show ?case by simp
next
  case (Cons a rs)
  obtain E r where a: "a = (E, r)" by (cases a)
  from Cons.IH [OF own_keys_perform [OF Cons.prems, of E r]] a show ?case by simp
qed

lemma own_keys_sched_step:
  assumes "own_keys_not_inherited (fst sys)"
  shows "own_keys_not_inherited (fst (sched_step d item sys))"
proof -
  obtain st invs where sys: "sys = (st, invs)" by (cases sys)
  obtain i a where item: "item = (i, a)" by (cases item)
  from assms sys have own: "own_keys_not_inherited st" by simp
  show ?thesis
  proof (cases "i < length invs")
    case False
    then show ?thesis using own sys item by (simp add: sched_step_def)
  next
    case True
    show ?thesis
    proof (cases "inv_phase (invs ! i)")
      case Called
      have "fst (sched_step d item sys) =
            snd (begin_call d a (inv_client (invs ! i)) (inv_filePath (invs ! i)) st)"
        using sys item True Called
        by (simp add: sched_step_def Let_def split: prod.split begun.split)
      moreover have "clientToHackLanguage
            (snd (begin_call d a (inv_client (invs ! i)) (inv_filePath (invs ! i)) st)) =
          clientToHackLanguage st"
        by (cases a) (simp_all add: begin_call_def create_begin_registry)
      from own_keys_cong [OF this] own
      have "own_keys_not_inherited
              (snd (begin_call d a (inv_client (invs ! i)) (inv_filePath (invs ! i)) st))"
        by simp
      ultimately show ?thesis by simp
    next
      case Suspended
      show ?thesis
      proof (cases a)
        case (Settled settled)
        have "fst (sched_step d item sys) =
              snd (create_resume (inv_client (invs ! i)) settled st)"
          using sys item True Suspended Settled
          by (simp add: sched_step_def Let_def split: prod.split)
        then show ?thesis using own by (simp add: own_keys_create_resume)
      next
        case (ExecThrows e)
        then show ?thesis using own sys item True Suspended
          by (simp add: sched_step_def Let_def)
      next
        case (FindNearestFileThrows e)
        then show ?thesis using own sys item True Suspended
          by (simp add: sched_step_def Let_def)
      qed
    next
      case (Returned r)
      then show ?thesis using own sys item True by (simp add: sched_step_def Let_def)
    qed
  qed
qed

lemma own_keys_run_schedule:
  "own_keys_not_inherited (fst sys) \<Longrightarrow>
   own_keys_not_inherited (fst (run_schedule d sched sys))"
proof (induction sched arbitrary: sys)
  case Nil
  then show ?case by simp
next
  case (Cons item items)
  from Cons.IH [OF own_keys_sched_step [OF Cons.prems]] show ?case by simp
qed

text \<open>
  From the load of the module on, through any calls of the exported operations and any
  overlapping calls of \<open>createHackLanguageIfNotExisting\<close>, no own property of the
  registry has a name of \<open>Object.prototype\<close>; and in such a state the identifier of a
  buffer whose session is resolved to a \<open>HackLanguage\<close> is no such name.
\<close>

lemma own_keys_not_inherited_reached:
  "own_keys_not_inherited (perform_all rs initial_state) \<and>
   own_keys_not_inherited (fst (run_schedule d sched (perform_all rs initial_state, invs)))"
  using own_keys_perform_all [OF own_keys_initial, of rs]
    own_keys_run_schedule [of "(perform_all rs initial_state, invs)" d sched]
  by simp

lemma resolved_identifier_not_inherited:
  assumes own: "own_keys_not_inherited st"
    and session: "getHackLanguageForBuffer E b st = (Inr (Session hl), st1)"
  shows "getClientId E b \<notin> set object_prototype_properties"
proof -
  let ?c = "getClient E (getUri b)"
  let ?fp = "url_path (url_parse E (getUri b))"
  from session have run: "createHackLanguageIfNotExisting E ?c ?fp st = (Inr (Session hl), st1)"
    by (simp add: getHackLanguageForBuffer_def Let_def)
  obtain bg st2 where bg: "create_begin (dirname E) (thrown (exec E ?c ''which hh_client''))
      (thrown (findNearestFile E ?c ''.hhconfig'' (dirname E ?fp))) ?c ?fp st = (bg, st2)"
    by (cases "create_begin (dirname E) (thrown (exec E ?c ''which hh_client''))
      (thrown (findNearestFile E ?c ''.hhconfig'' (dirname E ?fp))) ?c ?fp st")
  from create_begin_facts [OF bg] have reg2: "clientToHackLanguage st2 = clientToHackLanguage st"
    and found: "\<forall>v. bg = Returns v \<longrightarrow> registry_get st (getID ?c) = Some v"
    by simp_all
  have own_entry: "getID ?c \<notin> set object_prototype_properties"
    if "registry_get s (getID ?c) = Some (Session hl)"
      and "clientToHackLanguage s = clientToHackLanguage st" for s
    using that own registry_get_Session [of s "getID ?c" hl]
    by (auto simp: own_keys_not_inherited_def)
  have "getID ?c \<notin> set object_prototype_properties"
  proof (cases bg)
    case (Returns v)
    with run bg found have "registry_get st (getID ?c) = Some (Session hl)"
      by (simp add: createHackLanguageIfNotExisting_def)
    then show ?thesis by (rule own_entry) simp
  next
    case (Fails e)
    with run bg show ?thesis by (simp add: createHackLanguageIfNotExisting_def)
  next
    case Suspends
    with run bg have resume: "create_resume ?c (probes E ?c ?fp) st2 = (Inr (Session hl), st1)"
      by (simp add: createHackLanguageIfNotExisting_def)
    show ?thesis
    proof (cases "registry_get st2 (getID ?c)")
      case None
      then show ?thesis by (simp add: registry_get_None)
    next
      case (Some v)
      with resume have "v = Session hl"
        by (cases "probes E ?c ?fp") (auto simp: create_resume_def)
      with Some show ?thesis using own_entry [OF _ reg2] by simp
    qed
  qed
  then show ?thesis by (simp add: getClientId_def Let_def)
qed

end
